theory Spec2Isabelle
  imports Main
begin

section \<open>Values, observers and exceptions\<close>

text \<open>
  The library is JavaScript: callbacks are closures, objects are mutated in place and a
  call of something that is not a function throws \<open>TypeError\<close>. The embedding passes the
  state explicitly and returns \<open>Inl TypeError\<close> where the source throws.

  A caller's callback is opaque: it is a value of a type \<open>'f\<close>, and calling it is
  recorded in the log \<open>calls\<close> of the signal that called it, together with the
  notification it was called for (\<open>Next v\<close> for \<open>observer.next(v)\<close>, \<open>Error v\<close> for
  \<open>observer.error(v)\<close>, \<open>Complete\<close> for \<open>observer.complete()\<close>).
  A slot of an observer is \<open>Some f\<close> when the property holds the function \<open>f\<close> and
  \<open>None\<close> when the property is absent or holds something that cannot be called.
\<close>

datatype error = TypeError

datatype ('a, 'e) event = Next 'a | Error 'e | Complete

record 'f observer =
  "next" :: "'f option"
  error :: "'f option"
  complete :: "'f option"

text \<open>
  What \<open>subscribe\<close> sees of its first argument is \<open>typeof observer\<close>:
  \<open>'function'\<close> (\<open>Fn\<close>), \<open>'object'\<close> (\<open>Obj\<close>, and also \<open>Null\<close>, since
  \<open>typeof null === 'object'\<close>), or anything else (\<open>Prim\<close>: undefined, a number,
  a string, a boolean).
\<close>

datatype 'f jsvalue = Fn 'f | Obj "'f observer" | Null | Prim

text \<open>
  What the engine sees of the value returned by a mount function is whether
  \<open>typeof this._unmount === 'function'\<close>. \<open>Function h\<close> is the closure \<open>h\<close>;
  \<open>Subscription_object\<close> is a Subscription object of an upstream signal;
  \<open>Undefined\<close> is the value of a mount function that returns nothing.
\<close>

datatype 'h returned = Function 'h | Subscription_object | Undefined

text \<open>An operation on a state \<open>'s\<close> returns the new state or throws.\<close>

type_synonym 's action = "'s \<Rightarrow> error + 's"

definition and_then :: "'x + 's \<Rightarrow> ('s \<Rightarrow> 'x + 't) \<Rightarrow> 'x + 't" where
  "and_then r k = (case r of Inl e \<Rightarrow> Inl e | Inr s \<Rightarrow> k s)"

text \<open>A \<open>for ... of\<close> loop whose body may throw; also used to run a list of inputs.\<close>

fun foreach :: "('i \<Rightarrow> 's \<Rightarrow> 'x + 's) \<Rightarrow> 'i list \<Rightarrow> 's \<Rightarrow> 'x + 's" where
  "foreach body [] s = Inr s"
| "foreach body (x # xs) s = and_then (body x s) (foreach body xs)"

section \<open>The Signal engine (signal.js, lines 15-84)\<close>

text \<open>
  \<open>subscriptions\<close> is the Set \<open>this._subscriptions\<close> in insertion order; a member is a
  Subscription object, given by its identity (the number of Subscription objects created
  before it by this signal) and its observer (\<open>None\<close> when the observer is \<open>null\<close>).
  \<open>unmount\<close> is \<open>this._unmount\<close>. The mount function \<open>this._mount\<close> never changes after
  construction, so it is a parameter of \<open>subscribe\<close> (a function by its type: the
  constructor rejects anything else); the record is extensible, and the variables a
  mount function closes over are fields of the extension.

  The class \<open>Subscription\<close> is defined in \<open>subscription.js\<close>, which is not among the
  sources. \<open>new Subscription(observer, f)\<close> makes an object whose property \<open>observer\<close>
  is the observer (the handlers read it) and which holds the function \<open>f\<close>
  (\<open>disposer\<close> below); its operation \<open>unsubscribe\<close> is modelled from the spec, below.
  \<open>inert\<close> holds the identities of the Subscription objects of this signal that are inert.
\<close>

record ('f, 'a, 'e, 'h) Signal =
  subscriptions :: "(nat \<times> 'f observer option) list"
  unmount :: "'h returned"
  allocated :: nat
  calls :: "('f \<times> ('a, 'e) event) list"
  inert :: "nat set"

definition Signal_new :: "'m \<Rightarrow> ('f, 'a, 'e, 'h, 'm) Signal_scheme" where
  "Signal_new ext =
     \<lparr>subscriptions = [], unmount = Undefined, allocated = 0, calls = [], inert = {},
      \<dots> = ext\<rparr>"

text \<open>\<open>args[i]\<close> of the rest parameter: undefined beyond the end.\<close>

definition arg :: "nat \<Rightarrow> 'f option list \<Rightarrow> 'f option" where
  "arg i args = (if i < length args then args ! i else None)"

text \<open>Lines 38-42 of \<open>subscribe\<close>.\<close>

definition normalize :: "'f jsvalue \<Rightarrow> 'f option list \<Rightarrow> 'f observer option" where
  "normalize ob args =
     (case ob of
        Fn f \<Rightarrow> Some \<lparr>next = Some f, error = arg 0 args, complete = arg 1 args\<rparr>
      | Obj ob' \<Rightarrow> Some ob'
      | Null \<Rightarrow> None
      | Prim \<Rightarrow> Some \<lparr>next = None, error = None, complete = None\<rparr>)"

text \<open>
  \<open>s.observer.next(value)\<close> and its two siblings: reading a property of \<open>null\<close> throws,
  and so does calling a property that is not a function.
\<close>

definition invoke ::
  "('f observer \<Rightarrow> 'f option) \<Rightarrow> ('a, 'e) event \<Rightarrow> nat \<times> 'f observer option \<Rightarrow>
   ('f, 'a, 'e, 'h, 'm) Signal_scheme \<Rightarrow> error + ('f, 'a, 'e, 'h, 'm) Signal_scheme" where
  "invoke slot ev sub s =
     (case snd sub of
        None \<Rightarrow> Inl TypeError
      | Some ob \<Rightarrow>
          (case slot ob of
             None \<Rightarrow> Inl TypeError
           | Some f \<Rightarrow> Inr (s\<lparr>calls := calls s @ [(f, ev)]\<rparr>)))"

definition nextHandler ::
  "'a \<Rightarrow> ('f, 'a, 'e, 'h, 'm) Signal_scheme \<Rightarrow> error + ('f, 'a, 'e, 'h, 'm) Signal_scheme" where
  "nextHandler v s = foreach (invoke next (Next v)) (subscriptions s) s"

definition errorHandler ::
  "'e \<Rightarrow> ('f, 'a, 'e, 'h, 'm) Signal_scheme \<Rightarrow> error + ('f, 'a, 'e, 'h, 'm) Signal_scheme" where
  "errorHandler v s = foreach (invoke error (Error v)) (subscriptions s) s"

definition completeHandler ::
  "('f, 'a, 'e, 'h, 'm) Signal_scheme \<Rightarrow> error + ('f, 'a, 'e, 'h, 'm) Signal_scheme" where
  "completeHandler s = foreach (invoke complete Complete) (subscriptions s) s"

text \<open>The source a signal is mounted on calls one of the three handlers.\<close>

definition emit ::
  "('a, 'e) event \<Rightarrow> ('f, 'a, 'e, 'h, 'm) Signal_scheme \<Rightarrow>
   error + ('f, 'a, 'e, 'h, 'm) Signal_scheme" where
  "emit ev s =
     (case ev of Next v \<Rightarrow> nextHandler v s | Error v \<Rightarrow> errorHandler v s
      | Complete \<Rightarrow> completeHandler s)"

text \<open>
  Lines 62-83. The new Subscription object is not yet a member of the Set, so \<open>add\<close>
  appends it. The result is the identity of the subscription and the new state.
\<close>

definition subscribe ::
  "(('f, 'a, 'e, 'h, 'm) Signal_scheme \<Rightarrow>
      error + 'h returned \<times> ('f, 'a, 'e, 'h, 'm) Signal_scheme) \<Rightarrow>
   'f jsvalue \<Rightarrow> 'f option list \<Rightarrow> ('f, 'a, 'e, 'h, 'm) Signal_scheme \<Rightarrow>
   error + nat \<times> ('f, 'a, 'e, 'h, 'm) Signal_scheme" where
  "subscribe mount ob args s =
     (let sub = allocated s;
          s1 = s\<lparr>allocated := sub + 1,
                 subscriptions := subscriptions s @ [(sub, normalize ob args)]\<rparr>
      in if length (subscriptions s1) = 1
         then and_then (mount s1) (\<lambda>(r, s2). Inr (sub, s2\<lparr>unmount := r\<rparr>))
         else Inr (sub, s1))"

text \<open>
  Lines 63-71, the function handed to \<open>new Subscription\<close>: \<open>delete\<close> removes the
  subscription with identity \<open>sub\<close>; \<open>call h\<close> runs the closure \<open>h\<close>.
\<close>

definition disposer ::
  "('h \<Rightarrow> ('f, 'a, 'e, 'h, 'm) Signal_scheme \<Rightarrow> error + ('f, 'a, 'e, 'h, 'm) Signal_scheme) \<Rightarrow>
   nat \<Rightarrow> ('f, 'a, 'e, 'h, 'm) Signal_scheme \<Rightarrow> error + ('f, 'a, 'e, 'h, 'm) Signal_scheme" where
  "disposer call sub s =
     (let s1 = s\<lparr>subscriptions := filter (\<lambda>x. fst x \<noteq> sub) (subscriptions s)\<rparr>
      in if length (subscriptions s1) = 0
         then (case unmount s1 of Function h \<Rightarrow> call h s1 | _ \<Rightarrow> Inr s1)
         else Inr s1)"

text \<open>
  Modelled from the spec: the class \<open>Subscription\<close> (\<open>subscription.js\<close>) is missing from
  the sources. The spec (4.2) says that a Subscription "wraps an observer and a
  zero-argument disposer; exposes a single operation, \<open>unsubscribe()\<close>, which calls the
  disposer then marks itself inert so a second call is a no-op. No other state."
\<close>

definition unsubscribe ::
  "('h \<Rightarrow> ('f, 'a, 'e, 'h, 'm) Signal_scheme \<Rightarrow> error + ('f, 'a, 'e, 'h, 'm) Signal_scheme) \<Rightarrow>
   nat \<Rightarrow> ('f, 'a, 'e, 'h, 'm) Signal_scheme \<Rightarrow> error + ('f, 'a, 'e, 'h, 'm) Signal_scheme" where
  "unsubscribe call sub s =
     (if sub \<in> inert s then Inr s
      else and_then (disposer call sub s) (\<lambda>s'. Inr (s'\<lparr>inert := insert sub (inert s')\<rparr>)))"

text \<open>
  What happens to a signal: a caller subscribes; a caller calls \<open>unsubscribe()\<close> on the
  Subscription object with a given identity, which it holds once \<open>subscribe\<close> has
  returned it (before that there is no such object, and nothing happens); or something
  outside (the source the signal is mounted on, an upstream signal, a timer) acts on it.
\<close>

datatype ('f, 'x) input = Subscribe "'f jsvalue" "'f option list" | Unsubscribe nat | Outside 'x

fun step ::
  "(('f, 'a, 'e, 'h, 'm) Signal_scheme \<Rightarrow>
      error + 'h returned \<times> ('f, 'a, 'e, 'h, 'm) Signal_scheme) \<Rightarrow>
   ('h \<Rightarrow> ('f, 'a, 'e, 'h, 'm) Signal_scheme \<Rightarrow> error + ('f, 'a, 'e, 'h, 'm) Signal_scheme) \<Rightarrow>
   ('x \<Rightarrow> ('f, 'a, 'e, 'h, 'm) Signal_scheme \<Rightarrow> error + ('f, 'a, 'e, 'h, 'm) Signal_scheme) \<Rightarrow>
   ('f, 'x) input \<Rightarrow> ('f, 'a, 'e, 'h, 'm) Signal_scheme \<Rightarrow>
   error + ('f, 'a, 'e, 'h, 'm) Signal_scheme" where
  "step mount call outside (Subscribe ob args) s =
     and_then (subscribe mount ob args s) (\<lambda>(sub, s'). Inr s')"
| "step mount call outside (Unsubscribe sub) s =
     (if sub < allocated s then unsubscribe call sub s else Inr s)"
| "step mount call outside (Outside x) s = outside x s"

text \<open>What has acted on the signal from outside in a list of inputs, in order.\<close>

fun outside_events :: "('f, 'x) input list \<Rightarrow> 'x list" where
  "outside_events [] = []"
| "outside_events (Subscribe ob args # inputs) = outside_events inputs"
| "outside_events (Unsubscribe sub # inputs) = outside_events inputs"
| "outside_events (Outside x # inputs) = x # outside_events inputs"

text \<open>The callback a broadcast of \<open>ev\<close> calls on a subscription, if it has one.\<close>

definition slot :: "('a, 'e) event \<Rightarrow> 'f observer \<Rightarrow> 'f option" where
  "slot ev = (case ev of Next v \<Rightarrow> next | Error v \<Rightarrow> error | Complete \<Rightarrow> complete)"

definition callback :: "('a, 'e) event \<Rightarrow> nat \<times> 'f observer option \<Rightarrow> 'f option" where
  "callback ev sub = Option.bind (snd sub) (slot ev)"

subsection \<open>A signal with a mount function of the caller\<close>

text \<open>
  A mount function of the caller acts on the world outside the signal and does not
  subscribe to or unsubscribe from the signal it mounts. \<open>mounted\<close> counts its
  invocations; the value it returns at its \<open>k\<close>th invocation is \<open>r k\<close>; \<open>unmounted\<close> lists
  the closures run as \<open>this._unmount()\<close>. The source it attaches to calls the three
  handlers.
\<close>

record ('f, 'a, 'e, 'h) user_signal = "('f, 'a, 'e, 'h) Signal" +
  mounted :: nat
  unmounted :: "'h list"

definition user_new :: "('f, 'a, 'e, 'h) user_signal" where
  "user_new = Signal_new \<lparr>mounted = 0, unmounted = []\<rparr>"

definition user_mount ::
  "(nat \<Rightarrow> 'h returned) \<Rightarrow> ('f, 'a, 'e, 'h) user_signal \<Rightarrow>
   error + 'h returned \<times> ('f, 'a, 'e, 'h) user_signal" where
  "user_mount r s = Inr (r (mounted s), s\<lparr>mounted := mounted s + 1\<rparr>)"

definition user_unmount ::
  "'h \<Rightarrow> ('f, 'a, 'e, 'h) user_signal \<Rightarrow> error + ('f, 'a, 'e, 'h) user_signal" where
  "user_unmount h s = Inr (s\<lparr>unmounted := unmounted s @ [h]\<rparr>)"

definition user_step ::
  "(nat \<Rightarrow> 'h returned) \<Rightarrow> ('f, ('a, 'e) event) input \<Rightarrow> ('f, 'a, 'e, 'h) user_signal \<Rightarrow>
   error + ('f, 'a, 'e, 'h) user_signal" where
  "user_step r = step (user_mount r) user_unmount emit"

section \<open>Combinators\<close>

text \<open>
  A combinator builds a signal whose mount function subscribes to one or more upstream
  signals. An upstream signal is a signal of the same engine; of its registry the model
  keeps the subscriptions made by the combinator, in the order they were made:
  \<open>(m, i)\<close> in \<open>upstream\<close> is the subscription made by run number \<open>m\<close> of the mount
  function on the upstream signal at index \<open>i\<close> of \<open>[this].concat(ss)\<close> (index 0 where
  there is one upstream signal). \<open>mounts\<close> counts the runs of the mount function; a
  variable declared inside the mount function has one instance for each run, a variable
  declared outside has one instance for the signal.

  When the upstream signal at index \<open>i\<close> broadcasts, its handler calls the observer of
  each of its subscriptions in turn (\<open>upstream_emit\<close>). Nothing else reaches the
  observers: such a broadcast is an input of the model, also when the upstream signal
  makes it while it is being subscribed to.

  The methods of \<open>signal.js\<close> (\<open>map\<close>, \<open>filter\<close>, \<open>fold\<close>, \<open>scan\<close>, \<open>delay\<close>,
  \<open>merge\<close>, \<open>zip\<close>) write their mount function with the three parameters
  \<open>(next, error, complete)\<close>, which line 80 of \<open>signal.js\<close> binds to the three
  handlers. The functions of \<open>src/combinator\<close> are embedded in the last subsection.
\<close>

record ('f, 'a, 'e, 'h) combinator = "('f, 'a, 'e, 'h) Signal" +
  upstream :: "(nat \<times> nat) list"
  mounts :: nat

definition subscribe_upstream ::
  "nat \<Rightarrow> nat \<Rightarrow> ('f, 'a, 'e, 'h, 'm) combinator_scheme \<Rightarrow> ('f, 'a, 'e, 'h, 'm) combinator_scheme" where
  "subscribe_upstream m i s = s\<lparr>upstream := upstream s @ [(m, i)]\<rparr>"

definition mounting ::
  "(nat \<Rightarrow> ('f, 'a, 'e, 'h, 'm) combinator_scheme \<Rightarrow>
      error + 'h returned \<times> ('f, 'a, 'e, 'h, 'm) combinator_scheme) \<Rightarrow>
   ('f, 'a, 'e, 'h, 'm) combinator_scheme \<Rightarrow>
   error + 'h returned \<times> ('f, 'a, 'e, 'h, 'm) combinator_scheme" where
  "mounting body s = body (mounts s) (s\<lparr>mounts := mounts s + 1\<rparr>)"

definition upstream_emit ::
  "(nat \<Rightarrow> nat \<Rightarrow> ('c, 'e) event \<Rightarrow> ('f, 'a, 'e, 'h, 'm) combinator_scheme \<Rightarrow>
      error + ('f, 'a, 'e, 'h, 'm) combinator_scheme) \<Rightarrow>
   nat \<times> ('c, 'e) event \<Rightarrow> ('f, 'a, 'e, 'h, 'm) combinator_scheme \<Rightarrow>
   error + ('f, 'a, 'e, 'h, 'm) combinator_scheme" where
  "upstream_emit observer x s =
     foreach (\<lambda>(m, j) s'. if j = fst x then observer m j (snd x) s' else Inr s') (upstream s) s"

definition combinator_new :: "('f, 'a, 'e, 'h) combinator" where
  "combinator_new = Signal_new \<lparr>upstream = [], mounts = 0\<rparr>"

subsection \<open>map (signal.js, lines 242-246)\<close>

definition map_observer ::
  "('c \<Rightarrow> 'a) \<Rightarrow> ('c, 'e) event \<Rightarrow> ('f, 'a, 'e, 'h, 'm) combinator_scheme \<Rightarrow>
   error + ('f, 'a, 'e, 'h, 'm) combinator_scheme" where
  "map_observer f ev s =
     (case ev of Next a \<Rightarrow> nextHandler (f a) s | Error e \<Rightarrow> errorHandler e s
      | Complete \<Rightarrow> completeHandler s)"

definition map_mount ::
  "('f, 'a, 'e, 'h, 'm) combinator_scheme \<Rightarrow>
   error + 'h returned \<times> ('f, 'a, 'e, 'h, 'm) combinator_scheme" where
  "map_mount = mounting (\<lambda>m s. Inr (Subscription_object, subscribe_upstream m 0 s))"

definition map_step ::
  "('h \<Rightarrow> ('f, 'a, 'e, 'h, 'm) combinator_scheme action) \<Rightarrow> ('c \<Rightarrow> 'a) \<Rightarrow>
   ('f, nat \<times> ('c, 'e) event) input \<Rightarrow> ('f, 'a, 'e, 'h, 'm) combinator_scheme action" where
  "map_step call f = step map_mount call (upstream_emit (\<lambda>m j. map_observer f))"

subsection \<open>filter (signal.js, lines 255-261)\<close>

definition filter_observer ::
  "('a \<Rightarrow> bool) \<Rightarrow> ('a, 'e) event \<Rightarrow> ('f, 'a, 'e, 'h, 'm) combinator_scheme \<Rightarrow>
   error + ('f, 'a, 'e, 'h, 'm) combinator_scheme" where
  "filter_observer p ev s =
     (case ev of Next a \<Rightarrow> (if p a then nextHandler a s else Inr s)
      | Error e \<Rightarrow> errorHandler e s
      | Complete \<Rightarrow> completeHandler s)"

definition filter_mount ::
  "('f, 'a, 'e, 'h, 'm) combinator_scheme \<Rightarrow>
   error + 'h returned \<times> ('f, 'a, 'e, 'h, 'm) combinator_scheme" where
  "filter_mount = mounting (\<lambda>m s. Inr (Subscription_object, subscribe_upstream m 0 s))"

definition filter_step ::
  "('h \<Rightarrow> ('f, 'a, 'e, 'h, 'm) combinator_scheme action) \<Rightarrow> ('a \<Rightarrow> bool) \<Rightarrow>
   ('f, nat \<times> ('a, 'e) event) input \<Rightarrow> ('f, 'a, 'e, 'h, 'm) combinator_scheme action" where
  "filter_step call p = step filter_mount call (upstream_emit (\<lambda>m j. filter_observer p))"

subsection \<open>fold and scan (signal.js, lines 272-306)\<close>

text \<open>
  The accumulator is the parameter \<open>a\<close> of the combinator, which the observers assign
  to: \<open>a_var\<close>. It is declared outside the mount function.
\<close>

record ('f, 'a, 'e, 'h, 'b) stateful = "('f, 'a, 'e, 'h) combinator" +
  a_var :: 'b

definition stateful_new :: "'b \<Rightarrow> ('f, 'a, 'e, 'h, 'b) stateful" where
  "stateful_new a = Signal_new \<lparr>upstream = [], mounts = 0, a_var = a\<rparr>"

definition fold_observer ::
  "('b \<Rightarrow> 'c \<Rightarrow> 'b) \<Rightarrow> ('c, 'e) event \<Rightarrow> ('f, 'b, 'e, 'h, 'b, 'm) stateful_scheme \<Rightarrow>
   error + ('f, 'b, 'e, 'h, 'b, 'm) stateful_scheme" where
  "fold_observer f ev s =
     (case ev of
        Next b \<Rightarrow> Inr (s\<lparr>a_var := f (a_var s) b\<rparr>)
      | Error e \<Rightarrow> errorHandler e s
      | Complete \<Rightarrow> and_then (nextHandler (a_var s) s) completeHandler)"

definition fold_mount ::
  "('f, 'b, 'e, 'h, 'b, 'm) stateful_scheme \<Rightarrow>
   error + 'h returned \<times> ('f, 'b, 'e, 'h, 'b, 'm) stateful_scheme" where
  "fold_mount = mounting (\<lambda>m s. Inr (Subscription_object, subscribe_upstream m 0 s))"

definition fold_step ::
  "('h \<Rightarrow> ('f, 'b, 'e, 'h, 'b, 'm) stateful_scheme action) \<Rightarrow> ('b \<Rightarrow> 'c \<Rightarrow> 'b) \<Rightarrow>
   ('f, nat \<times> ('c, 'e) event) input \<Rightarrow> ('f, 'b, 'e, 'h, 'b, 'm) stateful_scheme action" where
  "fold_step call f = step fold_mount call (upstream_emit (\<lambda>m j. fold_observer f))"

definition scan_observer ::
  "('b \<Rightarrow> 'c \<Rightarrow> 'b) \<Rightarrow> ('c, 'e) event \<Rightarrow> ('f, 'b, 'e, 'h, 'b, 'm) stateful_scheme \<Rightarrow>
   error + ('f, 'b, 'e, 'h, 'b, 'm) stateful_scheme" where
  "scan_observer f ev s =
     (case ev of
        Next b \<Rightarrow> (let s1 = s\<lparr>a_var := f (a_var s) b\<rparr> in nextHandler (a_var s1) s1)
      | Error e \<Rightarrow> errorHandler e s
      | Complete \<Rightarrow> completeHandler s)"

definition scan_mount ::
  "('f, 'b, 'e, 'h, 'b, 'm) stateful_scheme \<Rightarrow>
   error + 'h returned \<times> ('f, 'b, 'e, 'h, 'b, 'm) stateful_scheme" where
  "scan_mount =
     mounting (\<lambda>m s. and_then (nextHandler (a_var s) s)
                       (\<lambda>s1. Inr (Subscription_object, subscribe_upstream m 0 s1)))"

definition scan_step ::
  "('h \<Rightarrow> ('f, 'b, 'e, 'h, 'b, 'm) stateful_scheme action) \<Rightarrow> ('b \<Rightarrow> 'c \<Rightarrow> 'b) \<Rightarrow>
   ('f, nat \<times> ('c, 'e) event) input \<Rightarrow> ('f, 'b, 'e, 'h, 'b, 'm) stateful_scheme action" where
  "scan_step call f = step scan_mount call (upstream_emit (\<lambda>m j. scan_observer f))"

subsection \<open>Timers, and delay (signal.js, lines 212-220)\<close>

text \<open>
  Time is a clock that \<open>tick\<close> advances by one unit. \<open>setTimeout(task, n)\<close> adds a timer
  that is due \<open>n\<close> units later and returns its identity; \<open>clearTimeout(id)\<close> removes the
  timer with that identity, if it is still pending; a tick runs the tasks of the timers
  that are due, in the order they were set. \<open>id_var\<close> is the variable \<open>id\<close> of the
  function \<open>delay\<close> of \<open>combinator/delay.js\<close>, declared outside its mount function.

  The tasks are the four closures the two delays hand to \<open>setTimeout\<close>:
  \<open>Call_next a\<close> is \<open>() => next(a)\<close> and \<open>Call_complete\<close> is \<open>() => complete()\<close>
  of \<open>Signal.prototype.delay\<close>, where \<open>next\<close> and \<open>complete\<close> are handlers;
  \<open>Emit_next a\<close> is \<open>() => emit.next(a)\<close> and \<open>Emit_complete\<close> is
  \<open>() => emit.complete()\<close> of \<open>combinator/delay.js\<close>, where \<open>emit\<close> is the first
  argument of the mount function, that is the next handler: a function, which has no
  property \<open>next\<close> or \<open>complete\<close>, so that these two tasks throw when they run.
\<close>

datatype 'a task = Call_next 'a | Call_complete | Emit_next 'a | Emit_complete

datatype closure = Clear_timeout

record ('f, 'a, 'e) delayed = "('f, 'a, 'e, closure) combinator" +
  id_var :: "nat option"
  timers :: "(nat \<times> nat \<times> 'a task) list"
  clock :: nat
  timer_ids :: nat

definition delayed_new :: "('f, 'a, 'e) delayed" where
  "delayed_new =
     Signal_new \<lparr>upstream = [], mounts = 0, id_var = None, timers = [], clock = 0, timer_ids = 0\<rparr>"

definition setTimeout ::
  "'a task \<Rightarrow> nat \<Rightarrow> ('f, 'a, 'e, 'm) delayed_scheme \<Rightarrow> nat \<times> ('f, 'a, 'e, 'm) delayed_scheme" where
  "setTimeout task n s =
     (timer_ids s,
      s\<lparr>timer_ids := timer_ids s + 1, timers := timers s @ [(timer_ids s, clock s + n, task)]\<rparr>)"

definition clearTimeout ::
  "nat option \<Rightarrow> ('f, 'a, 'e, 'm) delayed_scheme \<Rightarrow> ('f, 'a, 'e, 'm) delayed_scheme" where
  "clearTimeout t s =
     (case t of None \<Rightarrow> s | Some k \<Rightarrow> s\<lparr>timers := filter (\<lambda>x. fst x \<noteq> k) (timers s)\<rparr>)"

definition run_task ::
  "nat \<times> nat \<times> 'a task \<Rightarrow> ('f, 'a, 'e, 'm) delayed_scheme \<Rightarrow>
   error + ('f, 'a, 'e, 'm) delayed_scheme" where
  "run_task x s =
     (case snd (snd x) of
        Call_next a \<Rightarrow> nextHandler a s
      | Call_complete \<Rightarrow> completeHandler s
      | Emit_next a \<Rightarrow> Inl TypeError
      | Emit_complete \<Rightarrow> Inl TypeError)"

definition tick :: "('f, 'a, 'e, 'm) delayed_scheme \<Rightarrow> error + ('f, 'a, 'e, 'm) delayed_scheme" where
  "tick s =
     (let now = clock s + 1;
          due = filter (\<lambda>x. fst (snd x) \<le> now) (timers s);
          s1 = s\<lparr>clock := now, timers := filter (\<lambda>x. \<not> fst (snd x) \<le> now) (timers s)\<rparr>
      in foreach run_task due s1)"

datatype ('a, 'e) happening = Upstream "nat \<times> ('a, 'e) event" | Tick

text \<open>\<open>Clear_timeout\<close> is the closure \<open>() => clearTimeout(id)\<close>.\<close>

definition call_closure ::
  "closure \<Rightarrow> ('f, 'a, 'e, 'm) delayed_scheme \<Rightarrow> error + ('f, 'a, 'e, 'm) delayed_scheme" where
  "call_closure h s = (case h of Clear_timeout \<Rightarrow> Inr (clearTimeout (id_var s) s))"

text \<open>The method \<open>Signal.prototype.delay\<close> of \<open>signal.js\<close>.\<close>

definition Signal_delay_observer ::
  "nat \<Rightarrow> ('a, 'e) event \<Rightarrow> ('f, 'a, 'e, 'm) delayed_scheme \<Rightarrow>
   error + ('f, 'a, 'e, 'm) delayed_scheme" where
  "Signal_delay_observer n ev s =
     (case ev of
        Next a \<Rightarrow> Inr (snd (setTimeout (Call_next a) n s))
      | Error e \<Rightarrow> errorHandler e s
      | Complete \<Rightarrow> Inr (snd (setTimeout Call_complete n s)))"

definition Signal_delay_mount ::
  "('f, 'a, 'e, 'm) delayed_scheme \<Rightarrow> error + closure returned \<times> ('f, 'a, 'e, 'm) delayed_scheme" where
  "Signal_delay_mount = mounting (\<lambda>m s. Inr (Subscription_object, subscribe_upstream m 0 s))"

fun Signal_delay_outside ::
  "nat \<Rightarrow> ('a, 'e) happening \<Rightarrow> ('f, 'a, 'e, 'm) delayed_scheme \<Rightarrow>
   error + ('f, 'a, 'e, 'm) delayed_scheme" where
  "Signal_delay_outside n (Upstream x) s = upstream_emit (\<lambda>m j. Signal_delay_observer n) x s"
| "Signal_delay_outside n Tick s = tick s"

definition Signal_delay_step ::
  "nat \<Rightarrow> ('f, ('a, 'e) happening) input \<Rightarrow> ('f, 'a, 'e, 'm) delayed_scheme action" where
  "Signal_delay_step n = step Signal_delay_mount call_closure (Signal_delay_outside n)"

subsection \<open>merge and zip (signal.js, lines 315-356)\<close>

text \<open>
  \<open>n\<close> is \<open>ss.length\<close>, so there are \<open>n + 1\<close> upstream signals, with indices \<open>0\<close> (the signal
  itself) to \<open>n\<close>. \<open>count\<close> and \<open>as\<close> are declared inside the mount function:
  \<open>count_var s m\<close> and \<open>as_var s m\<close> are their instances for run number \<open>m\<close>.
  \<open>completed\<close> records the calls of \<open>complete()\<close> that \<open>onComplete\<close> makes: one entry
  for each call, the number of the run whose \<open>onComplete\<close> made it.
\<close>

record ('f, 'a, 'e, 'h) merged = "('f, 'a, 'e, 'h) combinator" +
  count_var :: "nat \<Rightarrow> nat"
  completed :: "nat list"

definition merged_new :: "('f, 'a, 'e, 'h) merged" where
  "merged_new = Signal_new \<lparr>upstream = [], mounts = 0, count_var = (\<lambda>m. 0), completed = []\<rparr>"

definition onComplete ::
  "nat \<Rightarrow> nat \<Rightarrow> ('f, 'a, 'e, 'h, 'm) merged_scheme \<Rightarrow> error + ('f, 'a, 'e, 'h, 'm) merged_scheme" where
  "onComplete n m s =
     (let s1 = s\<lparr>count_var := (count_var s)(m := count_var s m + 1)\<rparr>
      in if count_var s1 m > n then completeHandler (s1\<lparr>completed := completed s1 @ [m]\<rparr>)
         else Inr s1)"

definition merge_observer ::
  "nat \<Rightarrow> nat \<Rightarrow> ('a, 'e) event \<Rightarrow> ('f, 'a, 'e, 'h, 'm) merged_scheme \<Rightarrow>
   error + ('f, 'a, 'e, 'h, 'm) merged_scheme" where
  "merge_observer n m ev s =
     (case ev of Next a \<Rightarrow> nextHandler a s | Error e \<Rightarrow> errorHandler e s
      | Complete \<Rightarrow> onComplete n m s)"

definition merge_mount ::
  "nat \<Rightarrow> ('f, 'a, 'e, 'h, 'm) merged_scheme \<Rightarrow>
   error + 'h returned \<times> ('f, 'a, 'e, 'h, 'm) merged_scheme" where
  "merge_mount n =
     mounting (\<lambda>m s. Inr (Undefined,
        fold (subscribe_upstream m) [0..<Suc n] (s\<lparr>count_var := (count_var s)(m := 0)\<rparr>)))"

definition merge_step ::
  "('h \<Rightarrow> ('f, 'a, 'e, 'h, 'm) merged_scheme action) \<Rightarrow> nat \<Rightarrow>
   ('f, nat \<times> ('a, 'e) event) input \<Rightarrow> ('f, 'a, 'e, 'h, 'm) merged_scheme action" where
  "merge_step call n = step (merge_mount n) call (upstream_emit (\<lambda>m j. merge_observer n m))"

text \<open>
  \<open>F.array(n)\<close> of the fkit library is an array of \<open>n\<close> undefined elements. A slot of an
  array is \<open>None\<close> when it is undefined. An assignment \<open>as[index] = a\<close> beyond the end of
  an array extends it.
\<close>

definition array :: "nat \<Rightarrow> 'v option list" where
  "array n = replicate n None"

definition store :: "'v option list \<Rightarrow> nat \<Rightarrow> 'v \<Rightarrow> 'v option list" where
  "store xs i v =
     (if i < length xs then xs[i := Some v]
      else xs @ replicate (i - length xs) None @ [Some v])"

record ('f, 'v, 'e, 'h) zipped = "('f, 'v option list, 'e, 'h) merged" +
  as_var :: "nat \<Rightarrow> 'v option list option"

definition zipped_new :: "('f, 'v, 'e, 'h) zipped" where
  "zipped_new =
     Signal_new \<lparr>upstream = [], mounts = 0, count_var = (\<lambda>m. 0), completed = [],
                  as_var = (\<lambda>m. None)\<rparr>"

definition onNext ::
  "nat \<Rightarrow> nat \<Rightarrow> 'v \<Rightarrow> nat \<Rightarrow> ('f, 'v, 'e, 'h, 'm) zipped_scheme \<Rightarrow>
   error + ('f, 'v, 'e, 'h, 'm) zipped_scheme" where
  "onNext n m a index s =
     (let as0 = (case as_var s m of None \<Rightarrow> array n | Some xs \<Rightarrow> xs);
          as1 = store as0 index a;
          s1 = s\<lparr>as_var := (as_var s)(m := Some as1)\<rparr>
      in if length as1 > n
         then and_then (nextHandler as1 s1) (\<lambda>s2. Inr (s2\<lparr>as_var := (as_var s2)(m := None)\<rparr>))
         else Inr s1)"

definition zip_observer ::
  "nat \<Rightarrow> nat \<Rightarrow> nat \<Rightarrow> ('v, 'e) event \<Rightarrow> ('f, 'v, 'e, 'h, 'm) zipped_scheme \<Rightarrow>
   error + ('f, 'v, 'e, 'h, 'm) zipped_scheme" where
  "zip_observer n m index ev s =
     (case ev of Next a \<Rightarrow> onNext n m a index s | Error e \<Rightarrow> errorHandler e s
      | Complete \<Rightarrow> onComplete n m s)"

definition zip_mount ::
  "nat \<Rightarrow> ('f, 'v, 'e, 'h, 'm) zipped_scheme \<Rightarrow>
   error + 'h returned \<times> ('f, 'v, 'e, 'h, 'm) zipped_scheme" where
  "zip_mount n =
     mounting (\<lambda>m s. Inr (Undefined,
        fold (subscribe_upstream m) [0..<Suc n]
          (s\<lparr>count_var := (count_var s)(m := 0), as_var := (as_var s)(m := None)\<rparr>)))"

definition zip_step ::
  "('h \<Rightarrow> ('f, 'v, 'e, 'h, 'm) zipped_scheme action) \<Rightarrow> nat \<Rightarrow>
   ('f, nat \<times> ('v, 'e) event) input \<Rightarrow> ('f, 'v, 'e, 'h, 'm) zipped_scheme action" where
  "zip_step call n = step (zip_mount n) call (upstream_emit (zip_observer n))"

subsection \<open>The functions of src/combinator\<close>

text \<open>
  The functions of \<open>combinator/delay.js\<close> import the class of \<open>signal.js\<close> and write
  their mount function with one parameter, \<open>emit => ...\<close>. Line 80 of \<open>signal.js\<close>
  calls the mount function with the three handlers, so \<open>emit\<close> is the next handler. It
  is a function: \<open>emit.next\<close>, \<open>emit.error\<close> and \<open>emit.complete\<close> are undefined, and
  calling one of them throws; \<open>{...emit, next, complete}\<close> copies no property from it, so
  the observer has the callbacks written in the literal and no other, and a broadcast of
  the upstream signal for which it has no callback throws in the handler of the upstream
  signal (line 52 or 58).

  Embedded below are \<open>delay\<close>, \<open>fold\<close> and \<open>stateMachine\<close>. Of the other functions,
  \<open>scan\<close> calls \<open>emit.next(a)\<close> in its mount function and \<open>filter\<close> in its \<open>next\<close>
  callback, and \<open>dedupe\<close> and \<open>dedupeWith\<close> call the methods \<open>dedupeWith\<close> and
  \<open>stateMachine\<close> of the signal, which \<open>Signal.prototype\<close> does not have.
\<close>

text \<open>\<open>delay(n, s)\<close>, lines 18-33 of \<open>combinator/delay.js\<close>.\<close>

definition delay_observer ::
  "nat \<Rightarrow> ('a, 'e) event \<Rightarrow> ('f, 'a, 'e, 'm) delayed_scheme \<Rightarrow>
   error + ('f, 'a, 'e, 'm) delayed_scheme" where
  "delay_observer n ev s =
     (case ev of
        Next a \<Rightarrow> (let (t, s1) = setTimeout (Emit_next a) n s in Inr (s1\<lparr>id_var := Some t\<rparr>))
      | Error e \<Rightarrow> Inl TypeError
      | Complete \<Rightarrow> Inr (snd (setTimeout Emit_complete n s)))"

definition delay_mount ::
  "('f, 'a, 'e, 'm) delayed_scheme \<Rightarrow> error + closure returned \<times> ('f, 'a, 'e, 'm) delayed_scheme" where
  "delay_mount = mounting (\<lambda>m s. Inr (Function Clear_timeout, subscribe_upstream m 0 s))"

fun delay_outside ::
  "nat \<Rightarrow> ('a, 'e) happening \<Rightarrow> ('f, 'a, 'e, 'm) delayed_scheme \<Rightarrow>
   error + ('f, 'a, 'e, 'm) delayed_scheme" where
  "delay_outside n (Upstream x) s = upstream_emit (\<lambda>m j. delay_observer n) x s"
| "delay_outside n Tick s = tick s"

definition delay_step ::
  "nat \<Rightarrow> ('f, ('a, 'e) happening) input \<Rightarrow> ('f, 'a, 'e, 'm) delayed_scheme action" where
  "delay_step n = step delay_mount call_closure (delay_outside n)"


definition module_fold_mount ::
  "('f, 'a, 'e, 'h, 'b, 'm) stateful_scheme \<Rightarrow>
   error + 'h returned \<times> ('f, 'a, 'e, 'h, 'b, 'm) stateful_scheme" where
  "module_fold_mount = mounting (\<lambda>m s. Inr (Subscription_object, subscribe_upstream m 0 s))"



definition stateMachine_mount ::
  "('f, 'a, 'e, 'h, 'b, 'm) stateful_scheme \<Rightarrow>
   error + 'h returned \<times> ('f, 'a, 'e, 'h, 'b, 'm) stateful_scheme" where
  "stateMachine_mount = mounting (\<lambda>m s. Inr (Subscription_object, subscribe_upstream m 0 s))"


subsection \<open>Teardown\<close>

text \<open>
  The disposer of the subscription \<open>sub\<close> keeps its effect to the signal itself: the
  stored value is not a function, and the disposer removes the subscription from the
  registry and does nothing else (it calls no closure, and the subscriptions made on the
  upstream signals stay as they are).
\<close>

definition teardown_is_local ::
  "('h \<Rightarrow> ('f, 'a, 'e, 'h, 'm) Signal_scheme \<Rightarrow> error + ('f, 'a, 'e, 'h, 'm) Signal_scheme) \<Rightarrow>
   nat \<Rightarrow> ('f, 'a, 'e, 'h, 'm) Signal_scheme \<Rightarrow> bool" where
  "teardown_is_local call sub s \<longleftrightarrow>
     unmount s \<in> {Subscription_object, Undefined}
     \<and> disposer call sub s = Inr (s\<lparr>subscriptions := filter (\<lambda>x. fst x \<noteq> sub) (subscriptions s)\<rparr>)"

section \<open>Properties of the engine\<close>

lemma and_then_Inr [simp]: "and_then (Inr s) k = k s"
  by (simp add: and_then_def)

lemma and_then_Inl [simp]: "and_then (Inl e) k = Inl e"
  by (simp add: and_then_def)

lemma foreach_append: "foreach body (xs @ ys) s = and_then (foreach body xs s) (foreach body ys)"
  by (induction xs arbitrary: s) (auto simp: and_then_def split: sum.splits)

lemma slot_simps [simp]:
  "slot (Next v) = next" "slot (Error v) = error" "slot Complete = complete"
  by (simp_all add: slot_def)

lemma foreach_invoke:
  "foreach (invoke sl ev) subs s =
     (if \<forall>sub \<in> set subs. Option.bind (snd sub) sl \<noteq> None
      then Inr (s\<lparr>calls := calls s @ map (\<lambda>sub. (the (Option.bind (snd sub) sl), ev)) subs\<rparr>)
      else Inl TypeError)"
proof (induction subs arbitrary: s)
  case Nil
  then show ?case by simp
next
  case (Cons sub subs)
  show ?case
  proof (cases "Option.bind (snd sub) sl")
    case None
    then show ?thesis
      by (auto simp: invoke_def split: option.splits Option.bind_splits)
  next
    case (Some f)
    then have "invoke sl ev sub s = Inr (s\<lparr>calls := calls s @ [(f, ev)]\<rparr>)"
      by (auto simp: invoke_def split: option.splits Option.bind_splits)
    then show ?thesis
      using Some by (simp add: Cons.IH)
  qed
qed

lemma emit_broadcast:
  "emit ev s =
     (if \<forall>sub \<in> set (subscriptions s). callback ev sub \<noteq> None
      then Inr (s\<lparr>calls := calls s @ map (\<lambda>sub. (the (callback ev sub), ev)) (subscriptions s)\<rparr>)
      else Inl TypeError)"
  by (cases ev)
     (simp_all add: emit_def nextHandler_def errorHandler_def completeHandler_def
        foreach_invoke callback_def)

lemma and_then_eq_Inr: "and_then r k = Inr t \<longleftrightarrow> (\<exists>s. r = Inr s \<and> k s = Inr t)"
  by (cases r) simp_all

lemma foreach_preserves:
  assumes "foreach body xs s = Inr s'" and "P s"
    and "\<And>x t t'. x \<in> set xs \<Longrightarrow> body x t = Inr t' \<Longrightarrow> P t \<Longrightarrow> P t'"
  shows "P s'"
  using assms
proof (induction xs arbitrary: s)
  case Nil
  then show ?case by simp
next
  case (Cons x xs)
  from Cons.prems(1) obtain t where t: "body x s = Inr t" "foreach body xs t = Inr s'"
    by (auto simp: and_then_eq_Inr)
  have "P t" using Cons.prems t(1) by auto
  then show ?case using Cons.IH [OF t(2)] Cons.prems(3) by auto
qed

lemma emit_frame: "emit ev s = Inr s' \<Longrightarrow> \<exists>c. s' = s\<lparr>calls := c\<rparr>"
  by (auto simp: emit_broadcast split: if_splits)

lemma user_subscribe:
  "subscribe (user_mount r) ob args s =
     Inr (allocated s,
          s\<lparr>allocated := allocated s + 1,
            subscriptions := subscriptions s @ [(allocated s, normalize ob args)],
            unmount := (if subscriptions s = [] then r (mounted s) else unmount s),
            mounted := (if subscriptions s = [] then mounted s + 1 else mounted s)\<rparr>)"
  by (simp add: subscribe_def user_mount_def Let_def)

lemma user_disposer:
  "disposer user_unmount sub s =
     Inr (s\<lparr>subscriptions := filter (\<lambda>x. fst x \<noteq> sub) (subscriptions s),
            unmounted :=
              (case unmount s of
                 Function h \<Rightarrow>
                   if filter (\<lambda>x. fst x \<noteq> sub) (subscriptions s) = [] then unmounted s @ [h]
                   else unmounted s
               | _ \<Rightarrow> unmounted s)\<rparr>)"
  by (simp add: disposer_def user_unmount_def Let_def split: returned.splits)

lemma user_unsubscribe:
  "unsubscribe user_unmount sub s =
     (if sub \<in> inert s then Inr s
      else Inr (s\<lparr>subscriptions := filter (\<lambda>x. fst x \<noteq> sub) (subscriptions s),
                  unmounted :=
                    (case unmount s of
                       Function h \<Rightarrow>
                         if filter (\<lambda>x. fst x \<noteq> sub) (subscriptions s) = [] then unmounted s @ [h]
                         else unmounted s
                     | _ \<Rightarrow> unmounted s),
                  inert := insert sub (inert s)\<rparr>))"
  by (simp add: unsubscribe_def user_disposer)

lemma user_subscribe_all:
  "\<exists>s'. foreach (user_step r) (map (\<lambda>(ob, args). Subscribe ob args) obs) s = Inr s'
     \<and> map fst (subscriptions s') = map fst (subscriptions s) @ [allocated s ..< allocated s + length obs]
     \<and> allocated s' = allocated s + length obs
     \<and> mounted s' = (if subscriptions s = [] \<and> obs \<noteq> [] then mounted s + 1 else mounted s)
     \<and> unmount s' = (if subscriptions s = [] \<and> obs \<noteq> [] then r (mounted s) else unmount s)
     \<and> unmounted s' = unmounted s \<and> inert s' = inert s"
proof (induction obs rule: rev_induct)
  case Nil
  then show ?case by simp
next
  case (snoc x obs)
  obtain ob args where x: "x = (ob, args)" by (cases x)
  from snoc.IH obtain s1 where s1:
    "foreach (user_step r) (map (\<lambda>(ob, args). Subscribe ob args) obs) s = Inr s1"
    "map fst (subscriptions s1) = map fst (subscriptions s) @ [allocated s ..< allocated s + length obs]"
    "allocated s1 = allocated s + length obs"
    "mounted s1 = (if subscriptions s = [] \<and> obs \<noteq> [] then mounted s + 1 else mounted s)"
    "unmount s1 = (if subscriptions s = [] \<and> obs \<noteq> [] then r (mounted s) else unmount s)"
    "unmounted s1 = unmounted s" "inert s1 = inert s"
    by blast
  have e: "subscriptions s1 = [] \<longleftrightarrow> subscriptions s = [] \<and> obs = []"
    using s1(2) by (metis Nil_is_append_conv Nil_is_map_conv length_0_conv length_upt add_diff_cancel_left')
  show ?case
    using s1 e by (auto simp: x foreach_append user_step_def user_subscribe)
qed

lemma user_unsubscribe_all:
  assumes "\<forall>x \<in> set (subscriptions s). fst x < allocated s \<and> fst x \<notin> inert s"
  shows "\<exists>s'. foreach (user_step r) (map Unsubscribe order) s = Inr s'
     \<and> subscriptions s' = filter (\<lambda>x. fst x \<notin> set order) (subscriptions s)
     \<and> mounted s' = mounted s \<and> allocated s' = allocated s \<and> unmount s' = unmount s
     \<and> inert s' = inert s \<union> {x \<in> set order. x < allocated s}"
proof (induction order rule: rev_induct)
  case Nil
  then show ?case by simp
next
  case (snoc x order)
  then obtain s1 where s1:
    "foreach (user_step r) (map Unsubscribe order) s = Inr s1"
    "subscriptions s1 = filter (\<lambda>x. fst x \<notin> set order) (subscriptions s)"
    "mounted s1 = mounted s" "allocated s1 = allocated s" "unmount s1 = unmount s"
    "inert s1 = inert s \<union> {x \<in> set order. x < allocated s}"
    by blast
  have f: "filter (\<lambda>y. fst y \<noteq> x) (subscriptions s1)
      = filter (\<lambda>y. fst y \<notin> set (order @ [x])) (subscriptions s)"
    unfolding s1(2) filter_filter by (rule filter_cong) auto
  have g: "filter (\<lambda>y. fst y \<noteq> x) (subscriptions s1) = subscriptions s1"
    if "\<not> x < allocated s \<or> x \<in> inert s1"
    unfolding s1(2) filter_filter using that assms s1(6) by (intro filter_cong) auto
  show ?case
  proof (cases "x < allocated s \<and> x \<notin> inert s1")
    case True
    then show ?thesis
      using s1 f by (auto simp: foreach_append user_step_def user_unsubscribe)
  next
    case False
    then have "foreach (user_step r) (map Unsubscribe (order @ [x])) s = Inr s1"
      using s1 by (auto simp: foreach_append user_step_def user_unsubscribe)
    moreover have "subscriptions s1 = filter (\<lambda>y. fst y \<notin> set (order @ [x])) (subscriptions s)"
      using f g False by auto
    moreover have "inert s1 = inert s \<union> {y \<in> set (order @ [x]). y < allocated s}"
      using False s1(6) by auto
    ultimately show ?thesis
      using s1(3,4,5) by blast
  qed
qed

text \<open>
  Claim C1. The mount function runs exactly once on each transition of the number of
  subscriptions from 0 to 1, and not on a later subscribe while the number stays
  positive. In every state, \<open>subscribe\<close> succeeds, adds one subscription, and calls the
  mount function if and only if the registry was empty before. On a new signal, \<open>N > 0\<close>
  subscribes call it once in all; after \<open>unsubscribe()\<close> of all \<open>N\<close> subscriptions (in
  any order) the registry is empty, and one more subscribe calls it a second time.
\<close>

theorem mount_once_per_transition:
  fixes s :: "('f, 'a, 'e, 'h) user_signal"
  defines "new \<equiv> (user_new :: ('f, 'a, 'e, 'h) user_signal)"
  shows
  "map_sum id (\<lambda>(sub, s'). (sub, length (subscriptions s'), mounted s'))
       (subscribe (user_mount r) ob args s)
     = Inr (allocated s, Suc (length (subscriptions s)),
            if subscriptions s = [] then Suc (mounted s) else mounted s)
   \<and> (obs \<noteq> [] \<longrightarrow>
        map_sum id (\<lambda>s'. (length (subscriptions s'), mounted s'))
          (foreach (user_step r) (map (\<lambda>(ob, args). Subscribe ob args) obs) new)
        = Inr (length obs, 1))
   \<and> (obs \<noteq> [] \<longrightarrow> set order = {0..<length obs} \<longrightarrow>
        map_sum id (\<lambda>s'. (length (subscriptions s'), mounted s'))
          (foreach (user_step r)
             (map (\<lambda>(ob, args). Subscribe ob args) obs @ map Unsubscribe order) new)
        = Inr (0, 1)
      \<and> map_sum id (\<lambda>s'. (length (subscriptions s'), mounted s'))
          (foreach (user_step r)
             (map (\<lambda>(ob, args). Subscribe ob args) obs @ map Unsubscribe order
              @ [Subscribe ob args]) new)
        = Inr (1, 2))"
proof -
  from user_subscribe_all [of r obs new] obtain s1 where s1:
    "foreach (user_step r) (map (\<lambda>(ob, args). Subscribe ob args) obs) new = Inr s1"
    "map fst (subscriptions s1) = [0..<length obs]"
    "mounted s1 = (if obs \<noteq> [] then 1 else 0)"
    "allocated s1 = length obs" "inert s1 = {}"
    by (auto simp: new_def user_new_def Signal_new_def)
  have l: "length (subscriptions s1) = length obs"
    using s1(2) by (metis length_map length_upt diff_zero)
  have "\<forall>x \<in> set (subscriptions s1). fst x < allocated s1 \<and> fst x \<notin> inert s1"
  proof
    fix x assume "x \<in> set (subscriptions s1)"
    then have "fst x \<in> set (map fst (subscriptions s1))" by simp
    then show "fst x < allocated s1 \<and> fst x \<notin> inert s1"
      unfolding s1(2) using s1(4,5) by simp
  qed
  from user_unsubscribe_all [OF this, of r order] obtain s2 where s2:
    "foreach (user_step r) (map Unsubscribe order) s1 = Inr s2"
    "subscriptions s2 = filter (\<lambda>x. fst x \<notin> set order) (subscriptions s1)"
    "mounted s2 = mounted s1"
    by blast
  have e: "subscriptions s2 = []" if "set order = {0..<length obs}"
  proof -
    have "\<forall>x \<in> set (subscriptions s1). fst x \<in> set order"
      using s1(2) that by (metis atLeastLessThan_upt image_eqI list.set_map)
    then show ?thesis
      using s2(2) by (simp add: filter_empty_conv)
  qed
  show ?thesis
    using s1(1,3) s2 e l by (simp add: foreach_append user_step_def user_subscribe)
qed

theorem mount_once_per_transition_witness:
  "[(Prim, []), (Fn (0::nat), [])] \<noteq> [] \<and> set [1, 0] = {0..<length [(Prim, []), (Fn (0::nat), [])]}
   \<and> map_sum id (\<lambda>s'. (length (subscriptions s'), mounted s'))
          (foreach (user_step (\<lambda>k. Undefined))
             (map (\<lambda>(ob, args). Subscribe ob args) [(Prim, []), (Fn (0::nat), [])]
              @ map Unsubscribe [1, 0] @ [Subscribe Prim []])
             (user_new :: (nat, nat, nat, unit) user_signal))
        = Inr (1, 2)"
proof -
  have h1: "[(Prim, []), (Fn (0::nat), [])] \<noteq> []" by simp
  have h2: "set [1, 0] = {0..<length [(Prim, []), (Fn (0::nat), [])]}" by auto
  show ?thesis
    using h1 h2 mount_once_per_transition [where obs = "[(Prim, []), (Fn 0, [])]" and r = "\<lambda>k. Undefined"
        and order = "[1, 0]" and ob = Prim and args = "[]" and s = "user_new :: (nat, nat, nat, unit) user_signal"]
    by simp
qed






lemma user_step_inert:
  assumes "user_step r i t = Inr t'" and "sub < allocated t \<and> sub \<in> inert t"
  shows "sub < allocated t' \<and> sub \<in> inert t'"
proof (cases i)
  case (Subscribe ob args)
  then show ?thesis
    using assms by (auto simp: user_step_def user_subscribe)
next
  case (Unsubscribe x)
  then show ?thesis
    using assms by (auto simp: user_step_def user_unsubscribe split: if_splits)
next
  case (Outside ev)
  then show ?thesis
    using assms by (auto simp: user_step_def dest!: emit_frame)
qed

text \<open>
  Claim C5. Calling \<open>unsubscribe()\<close> of a Subscription a second time is a no-op: two
  calls in a row have the effect of one on the whole state of the signal (the registry,
  the stored unmount function, what has been called), whatever the closure stored as
  unmount function does; and on a signal with a mount function of the caller, a second
  call after anything else has happened to the signal in between (subscribes,
  \<open>unsubscribe()\<close> of this or other subscriptions, remounts, broadcasts) changes
  nothing: the registry, the number of runs of the mount function and the unmount
  functions called are those of the run without it.
\<close>

theorem unsubscribe_twice_is_noop:
  fixes s :: "('f, 'a, 'e, 'h, 'm) Signal_scheme" and t :: "('f, 'a, 'e, 'h) user_signal"
  shows
  "and_then (unsubscribe call sub s) (unsubscribe call sub) = unsubscribe call sub s
   \<and> (sub < allocated t \<longrightarrow>
      foreach (user_step r) (Unsubscribe sub # between @ [Unsubscribe sub]) t
      = foreach (user_step r) (Unsubscribe sub # between) t)"
proof (intro conjI impI)
  show "and_then (unsubscribe call sub s) (unsubscribe call sub) = unsubscribe call sub s"
    by (cases "disposer call sub s") (simp_all add: unsubscribe_def)
next
  assume a: "sub < allocated t"
  show "foreach (user_step r) (Unsubscribe sub # between @ [Unsubscribe sub]) t
      = foreach (user_step r) (Unsubscribe sub # between) t"
  proof (cases "foreach (user_step r) (Unsubscribe sub # between) t")
    case (Inl e)
    then show ?thesis
      using foreach_append [of "user_step r" "Unsubscribe sub # between" "[Unsubscribe sub]" t]
      by simp
  next
    case (Inr t')
    then obtain t1 where t1: "user_step r (Unsubscribe sub) t = Inr t1"
      and t': "foreach (user_step r) between t1 = Inr t'"
      by (auto simp: and_then_eq_Inr)
    have "sub < allocated t1 \<and> sub \<in> inert t1"
      using t1 a by (auto simp: user_step_def user_unsubscribe split: if_splits)
    then have "sub < allocated t' \<and> sub \<in> inert t'"
      by (rule foreach_preserves [OF t', where P = "\<lambda>t. sub < allocated t \<and> sub \<in> inert t"])
         (rule user_step_inert)
    then have "user_step r (Unsubscribe sub) t' = Inr t'"
      by (simp add: user_step_def unsubscribe_def)
    then show ?thesis
      using Inr foreach_append [of "user_step r" "Unsubscribe sub # between" "[Unsubscribe sub]" t]
      by simp
  qed
qed

theorem unsubscribe_twice_is_noop_witness:
  "foreach (user_step (\<lambda>k. Function ()))
     [Unsubscribe 0, Subscribe Prim [], Unsubscribe 0]
     (\<lparr>subscriptions = [(0, None)], unmount = Function (), allocated = 1, calls = [], inert = {},
       mounted = 1, unmounted = []\<rparr> :: (nat, nat, nat, unit) user_signal)
   = Inr \<lparr>subscriptions = [(1, Some \<lparr>next = None, error = None, complete = None\<rparr>)],
          unmount = Function (), allocated = 2, calls = [], inert = {0},
          mounted = 2, unmounted = [()]\<rparr>"
  using unsubscribe_twice_is_noop [where sub = 0 and r = "\<lambda>k. Function ()"
      and between = "[Subscribe Prim []]"
      and t = "\<lparr>subscriptions = [(0, None)], unmount = Function (), allocated = 1, calls = [],
                inert = {}, mounted = 1, unmounted = []\<rparr> :: (nat, nat, nat, unit) user_signal"]
  by (simp add: user_step_def user_subscribe user_unsubscribe normalize_def)

text \<open>
  Claim C6, as stated: a broadcast skips a subscription whose observer lacks the
  callback. The handlers call the callback without looking whether it is there: a
  subscriber that gave only a \<open>next\<close> function makes a broadcast of \<open>complete\<close> throw,
  and an empty observer makes a broadcast of \<open>next\<close> throw.
\<close>

theorem missing_callback_counterexample:
  "foreach (user_step (\<lambda>k. Undefined)) [Subscribe (Fn 0) [], Outside Complete]
     (user_new :: (nat, nat, nat, unit) user_signal) = Inl TypeError
   \<and> foreach (user_step (\<lambda>k. Undefined)) [Subscribe Prim [], Outside (Next 7)]
     (user_new :: (nat, nat, nat, unit) user_signal) = Inl TypeError"
  by (simp add: user_step_def user_subscribe user_new_def Signal_new_def emit_broadcast
        callback_def normalize_def arg_def)

text \<open>
  Claim C6, amended. A bare function becomes the \<open>next\<close> callback of the observer (its
  \<open>error\<close> and \<open>complete\<close> callbacks are the next two arguments, if given); an argument
  that is neither an object nor a function becomes an observer without callbacks. A
  broadcast calls the callback of every subscription, in the order of the registry, if
  every subscription has it, and throws \<open>TypeError\<close> if one lacks it; it calls no
  function that is not a callback of an observer.
\<close>

theorem broadcast_requires_callback:
  "normalize (Fn f) args = Some \<lparr>next = Some f, error = arg 0 args, complete = arg 1 args\<rparr>
   \<and> normalize Prim args = Some \<lparr>next = None, error = None, complete = None\<rparr>
   \<and> emit ev s =
     (if \<forall>sub \<in> set (subscriptions s). callback ev sub \<noteq> None
      then Inr (s\<lparr>calls := calls s @ map (\<lambda>sub. (the (callback ev sub), ev)) (subscriptions s)\<rparr>)
      else Inl TypeError)"
  by (simp add: normalize_def emit_broadcast)

theorem broadcast_requires_callback_witness:
  "emit (Next (5::nat))
       (\<lparr>subscriptions = [(0, Some \<lparr>next = Some (10::nat), error = None, complete = None\<rparr>),
                          (1, Some \<lparr>next = Some 11, error = None, complete = Some 12\<rparr>)],
         unmount = Undefined, allocated = 2, calls = [], inert = {}, mounted = 1, unmounted = []\<rparr>
        :: (nat, nat, nat, unit) user_signal)
     = Inr \<lparr>subscriptions = [(0, Some \<lparr>next = Some 10, error = None, complete = None\<rparr>),
                          (1, Some \<lparr>next = Some 11, error = None, complete = Some 12\<rparr>)],
         unmount = Undefined, allocated = 2, calls = [(10, Next 5), (11, Next 5)],
         inert = {}, mounted = 1, unmounted = []\<rparr>
   \<and> emit Complete
       (\<lparr>subscriptions = [(0, Some \<lparr>next = Some 10, error = None, complete = None\<rparr>),
                          (1, Some \<lparr>next = Some 11, error = None, complete = Some 12\<rparr>)],
         unmount = Undefined, allocated = 2, calls = [], inert = {}, mounted = 1, unmounted = []\<rparr>
        :: (nat, nat, nat, unit) user_signal)
     = Inl TypeError"
  using broadcast_requires_callback [where f = "0::nat" and args = "[]" and ev = "Next (5::nat)" and s =
       "\<lparr>subscriptions = [(0, Some \<lparr>next = Some (10::nat), error = None, complete = None\<rparr>),
                          (1, Some \<lparr>next = Some 11, error = None, complete = Some 12\<rparr>)],
         unmount = Undefined, allocated = 2, calls = [], inert = {}, mounted = 1, unmounted = []\<rparr>
        :: (nat, nat, nat, unit) user_signal"]
    broadcast_requires_callback [where f = "0::nat" and args = "[]" and ev = "Complete :: (nat, nat) event" and s =
       "\<lparr>subscriptions = [(0, Some \<lparr>next = Some (10::nat), error = None, complete = None\<rparr>),
                          (1, Some \<lparr>next = Some 11, error = None, complete = Some 12\<rparr>)],
         unmount = Undefined, allocated = 2, calls = [], inert = {}, mounted = 1, unmounted = []\<rparr>
        :: (nat, nat, nat, unit) user_signal"]
  by (simp add: callback_def)

section \<open>Properties of the combinators\<close>

lemma nextHandler_eq:
  fixes s :: "('f, 'a, 'e, 'h, 'm) Signal_scheme"
  shows
  "nextHandler v s =
     (if \<forall>sub \<in> set (subscriptions s). callback (Next v :: ('a, 'e) event) sub \<noteq> None
      then Inr (s\<lparr>calls := calls s @ map (\<lambda>sub. (the (callback (Next v :: ('a, 'e) event) sub), Next v)) (subscriptions s)\<rparr>)
      else Inl TypeError)"
  by (simp add: nextHandler_def foreach_invoke callback_def)

lemma errorHandler_eq:
  fixes s :: "('f, 'a, 'e, 'h, 'm) Signal_scheme"
  shows
  "errorHandler v s =
     (if \<forall>sub \<in> set (subscriptions s). callback (Error v :: ('a, 'e) event) sub \<noteq> None
      then Inr (s\<lparr>calls := calls s @ map (\<lambda>sub. (the (callback (Error v :: ('a, 'e) event) sub), Error v)) (subscriptions s)\<rparr>)
      else Inl TypeError)"
  by (simp add: errorHandler_def foreach_invoke callback_def)

lemma completeHandler_eq:
  fixes s :: "('f, 'a, 'e, 'h, 'm) Signal_scheme"
  shows
  "completeHandler s =
     (if \<forall>sub \<in> set (subscriptions s). callback (Complete :: ('a, 'e) event) sub \<noteq> None
      then Inr (s\<lparr>calls := calls s @ map (\<lambda>sub. (the (callback (Complete :: ('a, 'e) event) sub), Complete)) (subscriptions s)\<rparr>)
      else Inl TypeError)"
  by (simp add: completeHandler_def foreach_invoke callback_def)

lemma nextHandler_frame: "nextHandler v s = Inr s' \<Longrightarrow> \<exists>c. s' = s\<lparr>calls := c\<rparr>"
  using emit_frame [of "Next v" s s'] by (simp add: emit_def)

lemma errorHandler_frame: "errorHandler v s = Inr s' \<Longrightarrow> \<exists>c. s' = s\<lparr>calls := c\<rparr>"
  using emit_frame [of "Error v" s s'] by (simp add: emit_def)

lemma completeHandler_frame: "completeHandler s = Inr s' \<Longrightarrow> \<exists>c. s' = s\<lparr>calls := c\<rparr>"
  using emit_frame [of Complete s s'] by (simp add: emit_def)

lemma upstream_emit_preserves:
  assumes "upstream_emit observer x s = Inr s'" and "P s"
    and "\<And>m j t t'. observer m j (snd x) t = Inr t' \<Longrightarrow> P t \<Longrightarrow> P t'"
  shows "P s'"
proof (rule foreach_preserves [where P = P])
  show "foreach (\<lambda>(m, j) s'. if j = fst x then observer m j (snd x) s' else Inr s') (upstream s) s = Inr s'"
    using assms(1) by (simp add: upstream_emit_def)
  show "P s" by fact
  show "P t'" if "(case y of (m, j) \<Rightarrow> \<lambda>s'. if j = fst x then observer m j (snd x) s' else Inr s') t = Inr t'" "P t"
    for y t t'
    using that assms(3) by (cases y) (auto split: if_splits)
qed

lemma disposer_no_function:
  "unmount s \<in> {Subscription_object, Undefined} \<Longrightarrow>
   disposer call sub s = Inr (s\<lparr>subscriptions := filter (\<lambda>x. fst x \<noteq> sub) (subscriptions s)\<rparr>)"
  by (auto simp: disposer_def Let_def)

lemma unsubscribe_no_function:
  "unmount s \<in> {Subscription_object, Undefined} \<Longrightarrow>
   unsubscribe call sub s =
     (if sub \<in> inert s then Inr s
      else Inr (s\<lparr>subscriptions := filter (\<lambda>x. fst x \<noteq> sub) (subscriptions s),
                  inert := insert sub (inert s)\<rparr>))"
  by (simp add: unsubscribe_def disposer_no_function)

lemma step_no_function:
  assumes "step mount call outside i s = Inr s'"
    and "unmount s \<in> {Subscription_object, Undefined}"
    and "\<And>t r t'. mount t = Inr (r, t') \<Longrightarrow> r \<in> {Subscription_object, Undefined}"
    and "\<And>x t t'. outside x t = Inr t' \<Longrightarrow> unmount t' = unmount t"
  shows "unmount s' \<in> {Subscription_object, Undefined}"
proof (cases i)
  case (Subscribe ob args)
  show ?thesis
  proof (cases "subscriptions s = []")
    case True
    with Subscribe assms(1) obtain r t t' where "mount t = Inr (r, t')" "s' = t'\<lparr>unmount := r\<rparr>"
      by (auto simp: subscribe_def Let_def and_then_eq_Inr)
    then show ?thesis using assms(3) by fastforce
  next
    case False
    with Subscribe assms(1,2) show ?thesis
      by (auto simp: subscribe_def Let_def)
  qed
next
  case (Unsubscribe sub)
  then show ?thesis
    using assms(1,2) by (auto simp: unsubscribe_no_function split: if_splits)
next
  case (Outside x)
  then show ?thesis
    using assms(1,2) assms(4) by auto
qed

lemma run_no_function:
  assumes "foreach (step mount call outside) inputs s = Inr s'"
    and "unmount s \<in> {Subscription_object, Undefined}"
    and "\<And>t r t'. mount t = Inr (r, t') \<Longrightarrow> r \<in> {Subscription_object, Undefined}"
    and "\<And>x t t'. outside x t = Inr t' \<Longrightarrow> unmount t' = unmount t"
  shows "unmount s' \<in> {Subscription_object, Undefined}"
  by (rule foreach_preserves [OF assms(1), where P = "\<lambda>s. unmount s \<in> {Subscription_object, Undefined}"])
     (use assms(2) in simp, rule step_no_function [OF _ _ assms(3,4)])

lemma plain_mounts:
  "map_mount t = Inr (Subscription_object, subscribe_upstream (mounts t) 0 (t\<lparr>mounts := mounts t + 1\<rparr>))"
  "filter_mount t = Inr (Subscription_object, subscribe_upstream (mounts t) 0 (t\<lparr>mounts := mounts t + 1\<rparr>))"
  "fold_mount u = Inr (Subscription_object, subscribe_upstream (mounts u) 0 (u\<lparr>mounts := mounts u + 1\<rparr>))"
  "module_fold_mount v = Inr (Subscription_object, subscribe_upstream (mounts v) 0 (v\<lparr>mounts := mounts v + 1\<rparr>))"
  "stateMachine_mount w = Inr (Subscription_object, subscribe_upstream (mounts w) 0 (w\<lparr>mounts := mounts w + 1\<rparr>))"
  by (simp_all add: map_mount_def filter_mount_def fold_mount_def module_fold_mount_def
        stateMachine_mount_def mounting_def)

lemma scan_mount_result: "scan_mount t = Inr (r, t') \<Longrightarrow> r = Subscription_object"
  by (auto simp: scan_mount_def mounting_def and_then_eq_Inr)

lemma join_mount_result:
  "merge_mount n t = Inr (r, t') \<Longrightarrow> r = Undefined"
  "zip_mount n u = Inr (r, u') \<Longrightarrow> r = Undefined"
  by (auto simp: merge_mount_def zip_mount_def mounting_def)

lemma map_observer_unmount: "map_observer f ev t = Inr t' \<Longrightarrow> unmount t' = unmount t"
  by (cases ev)
     (auto simp: map_observer_def dest!: nextHandler_frame errorHandler_frame completeHandler_frame)

lemma filter_observer_unmount: "filter_observer p ev t = Inr t' \<Longrightarrow> unmount t' = unmount t"
  by (cases ev)
     (auto simp: filter_observer_def split: if_splits
           dest!: nextHandler_frame errorHandler_frame completeHandler_frame)

lemma fold_observer_unmount: "fold_observer f ev t = Inr t' \<Longrightarrow> unmount t' = unmount t"
  by (cases ev)
     (auto simp: fold_observer_def and_then_eq_Inr
           dest!: nextHandler_frame errorHandler_frame completeHandler_frame)

lemma scan_observer_unmount: "scan_observer f ev t = Inr t' \<Longrightarrow> unmount t' = unmount t"
  by (cases ev)
     (auto simp: scan_observer_def Let_def
           dest!: nextHandler_frame errorHandler_frame completeHandler_frame)

lemma onComplete_unmount: "onComplete n m t = Inr t' \<Longrightarrow> unmount t' = unmount t"
  by (auto simp: onComplete_def Let_def split: if_splits dest!: completeHandler_frame)

lemma merge_observer_unmount: "merge_observer n m ev t = Inr t' \<Longrightarrow> unmount t' = unmount t"
  by (cases ev)
     (auto simp: merge_observer_def onComplete_unmount dest!: nextHandler_frame errorHandler_frame)

lemma onNext_unmount: "onNext n m a index t = Inr t' \<Longrightarrow> unmount t' = unmount t"
  by (auto simp: onNext_def Let_def and_then_eq_Inr split: if_splits dest!: nextHandler_frame)

lemma zip_observer_unmount: "zip_observer n m index ev t = Inr t' \<Longrightarrow> unmount t' = unmount t"
  by (cases ev)
     (auto simp: zip_observer_def onComplete_unmount onNext_unmount dest!: errorHandler_frame)

lemma upstream_emit_unmount:
  assumes "upstream_emit observer x t = Inr t'"
    and "\<And>m j u u'. observer m j (snd x) u = Inr u' \<Longrightarrow> unmount u' = unmount u"
  shows "unmount t' = unmount t"
  by (rule upstream_emit_preserves [OF assms(1), where P = "\<lambda>u. unmount u = unmount t"])
     (use assms(2) in auto)

lemma teardown_local:
  assumes "foreach (step mount call outside) inputs s = Inr s'"
    and "unmount s \<in> {Subscription_object, Undefined}"
    and "\<And>t r t'. mount t = Inr (r, t') \<Longrightarrow> r \<in> {Subscription_object, Undefined}"
    and "\<And>x t t'. outside x t = Inr t' \<Longrightarrow> unmount t' = unmount t"
  shows "teardown_is_local call sub s'"
proof -
  have "unmount s' \<in> {Subscription_object, Undefined}"
    by (rule run_no_function [OF assms(1,2)]) (fact assms(3), fact assms(4))
  then show ?thesis
    unfolding teardown_is_local_def using disposer_no_function by blast
qed

lemmas engine_defs =
  subscribe_def disposer_def unsubscribe_def normalize_def arg_def nextHandler_def errorHandler_def
  completeHandler_def emit_def invoke_def Signal_new_def Let_def
  upstream_emit_def subscribe_upstream_def mounting_def

text \<open>
  Claim C10. The mount functions of map, filter, fold, scan, merge and zip return a
  Subscription object or nothing, never a function (the mount function of scan returns
  only if its broadcast of the starting value does not throw). So in every state such a
  signal reaches from its construction, through any subscribes, unsubscribes and upstream
  broadcasts, the stored value is not a function, and a disposer, also that of the last
  subscription, only removes its subscription (\<open>teardown_is_local\<close>): no closure is
  called, whatever \<open>call\<close> would do, and the subscriptions made on the upstream signals
  stay registered.
\<close>

theorem teardown_stays_downstream:
  "map_sum id fst (map_mount t1) = Inr Subscription_object
   \<and> map_sum id fst (filter_mount t2) = Inr Subscription_object
   \<and> map_sum id fst (fold_mount t3) = Inr Subscription_object
   \<and> map_sum id fst (scan_mount t4) \<in> {Inr Subscription_object, Inl TypeError}
   \<and> map_sum id fst (merge_mount n5 t5) = Inr Undefined
   \<and> map_sum id fst (zip_mount n6 t6) = Inr Undefined
   \<and> (foreach (map_step c1 f1) i1 combinator_new = Inr s1 \<longrightarrow> teardown_is_local c1 sub s1)
   \<and> (foreach (filter_step c2 p2) i2 combinator_new = Inr s2 \<longrightarrow> teardown_is_local c2 sub s2)
   \<and> (foreach (fold_step c3 f3) i3 (stateful_new a3) = Inr s3 \<longrightarrow> teardown_is_local c3 sub s3)
   \<and> (foreach (scan_step c4 f4) i4 (stateful_new a4) = Inr s4 \<longrightarrow> teardown_is_local c4 sub s4)
   \<and> (foreach (merge_step c5 n5) i5 merged_new = Inr s5 \<longrightarrow> teardown_is_local c5 sub s5)
   \<and> (foreach (zip_step c6 n6) i6 zipped_new = Inr s6 \<longrightarrow> teardown_is_local c6 sub s6)"
proof (intro conjI impI)
  show "map_sum id fst (map_mount t1) = Inr Subscription_object"
    and "map_sum id fst (filter_mount t2) = Inr Subscription_object"
    and "map_sum id fst (fold_mount t3) = Inr Subscription_object"
    by (simp_all add: plain_mounts)
  show "map_sum id fst (scan_mount t4) \<in> {Inr Subscription_object, Inl TypeError}"
    by (cases "scan_mount t4") (auto dest: scan_mount_result intro: error.exhaust)
  show "map_sum id fst (merge_mount n5 t5) = Inr Undefined"
    and "map_sum id fst (zip_mount n6 t6) = Inr Undefined"
    by (simp_all add: merge_mount_def zip_mount_def mounting_def)
next
  assume "foreach (map_step c1 f1) i1 combinator_new = Inr s1"
  then show "teardown_is_local c1 sub s1"
    unfolding map_step_def
    by (rule teardown_local)
       (auto simp: combinator_new_def Signal_new_def plain_mounts
             elim!: upstream_emit_unmount map_observer_unmount)
next
  assume "foreach (filter_step c2 p2) i2 combinator_new = Inr s2"
  then show "teardown_is_local c2 sub s2"
    unfolding filter_step_def
    by (rule teardown_local)
       (auto simp: combinator_new_def Signal_new_def plain_mounts
             elim!: upstream_emit_unmount filter_observer_unmount)
next
  assume "foreach (fold_step c3 f3) i3 (stateful_new a3) = Inr s3"
  then show "teardown_is_local c3 sub s3"
    unfolding fold_step_def
    by (rule teardown_local)
       (auto simp: stateful_new_def Signal_new_def plain_mounts
             elim!: upstream_emit_unmount fold_observer_unmount)
next
  assume "foreach (scan_step c4 f4) i4 (stateful_new a4) = Inr s4"
  then show "teardown_is_local c4 sub s4"
    unfolding scan_step_def
    by (rule teardown_local)
       (auto simp: stateful_new_def Signal_new_def dest: scan_mount_result
             elim!: upstream_emit_unmount scan_observer_unmount)
next
  assume "foreach (merge_step c5 n5) i5 merged_new = Inr s5"
  then show "teardown_is_local c5 sub s5"
    unfolding merge_step_def
    by (rule teardown_local)
       (auto simp: merged_new_def Signal_new_def dest: join_mount_result
             elim!: upstream_emit_unmount merge_observer_unmount)
next
  assume "foreach (zip_step c6 n6) i6 zipped_new = Inr s6"
  then show "teardown_is_local c6 sub s6"
    unfolding zip_step_def
    by (rule teardown_local)
       (auto simp: zipped_new_def Signal_new_def dest: join_mount_result
             elim!: upstream_emit_unmount zip_observer_unmount)
qed

theorem teardown_stays_downstream_witness:
  "teardown_is_local (\<lambda>h s. Inl TypeError) 0
     (projr (foreach (map_step (\<lambda>h s. Inl TypeError) Suc)
            [Subscribe (Fn 1) [Some 2, Some 3], Outside (0, Next 5)]
            (combinator_new :: (nat, nat, nat, unit) combinator)))
   \<and> teardown_is_local (\<lambda>h s. Inl TypeError) 0
     (projr (foreach (filter_step (\<lambda>h s. Inl TypeError) (\<lambda>a. a < 3))
            [Subscribe (Fn 1) [Some 2, Some 3], Outside (0, Next 5)]
            (combinator_new :: (nat, nat, nat, unit) combinator)))
   \<and> teardown_is_local (\<lambda>h s. Inl TypeError) 0
     (projr (foreach (fold_step (\<lambda>h s. Inl TypeError) (\<lambda>a b. a + b))
            [Subscribe (Fn 1) [Some 2, Some 3], Outside (0, Next 5)]
            (stateful_new 0 :: (nat, nat, nat, unit, nat) stateful)))
   \<and> teardown_is_local (\<lambda>h s. Inl TypeError) 0
     (projr (foreach (scan_step (\<lambda>h s. Inl TypeError) (\<lambda>a b. a + b))
            [Subscribe (Fn 1) [Some 2, Some 3], Outside (0, Next 5)]
            (stateful_new 0 :: (nat, nat, nat, unit, nat) stateful)))
   \<and> teardown_is_local (\<lambda>h s. Inl TypeError) 0
     (projr (foreach (merge_step (\<lambda>h s. Inl TypeError) 1)
            [Subscribe (Fn 1) [Some 2, Some 3], Outside (0, Next 5), Outside (1, Complete)]
            (merged_new :: (nat, nat, nat, unit) merged)))
   \<and> teardown_is_local (\<lambda>h s. Inl TypeError) 0
     (projr (foreach (zip_step (\<lambda>h s. Inl TypeError) 1)
            [Subscribe (Fn 1) [Some 2, Some 3], Outside (0, Next 5), Outside (1, Next 6)]
            (zipped_new :: (nat, nat, nat, unit) zipped)))"
  using teardown_stays_downstream [where sub = 0
      and ?t4.0 = "stateful_new 0 :: (nat, nat, nat, unit, nat) stateful"
      and ?c1.0 = "\<lambda>h s. Inl TypeError" and ?f1.0 = Suc
      and ?i1.0 = "[Subscribe (Fn 1) [Some 2, Some 3], Outside (0, Next 5)]"
      and ?s1.0 = "projr (foreach (map_step (\<lambda>h s. Inl TypeError) Suc)
            [Subscribe (Fn 1) [Some 2, Some 3], Outside (0, Next 5)]
            (combinator_new :: (nat, nat, nat, unit) combinator))"
      and ?c2.0 = "\<lambda>h s. Inl TypeError" and ?p2.0 = "\<lambda>a. a < 3"
      and ?i2.0 = "[Subscribe (Fn 1) [Some 2, Some 3], Outside (0, Next 5)]"
      and ?s2.0 = "projr (foreach (filter_step (\<lambda>h s. Inl TypeError) (\<lambda>a. a < 3))
            [Subscribe (Fn 1) [Some 2, Some 3], Outside (0, Next 5)]
            (combinator_new :: (nat, nat, nat, unit) combinator))"
      and ?c3.0 = "\<lambda>h s. Inl TypeError" and ?f3.0 = "\<lambda>a b. a + b" and ?a3.0 = 0
      and ?i3.0 = "[Subscribe (Fn 1) [Some 2, Some 3], Outside (0, Next 5)]"
      and ?s3.0 = "projr (foreach (fold_step (\<lambda>h s. Inl TypeError) (\<lambda>a b. a + b))
            [Subscribe (Fn 1) [Some 2, Some 3], Outside (0, Next 5)]
            (stateful_new 0 :: (nat, nat, nat, unit, nat) stateful))"
      and ?c4.0 = "\<lambda>h s. Inl TypeError" and ?f4.0 = "\<lambda>a b. a + b" and ?a4.0 = 0
      and ?i4.0 = "[Subscribe (Fn 1) [Some 2, Some 3], Outside (0, Next 5)]"
      and ?s4.0 = "projr (foreach (scan_step (\<lambda>h s. Inl TypeError) (\<lambda>a b. a + b))
            [Subscribe (Fn 1) [Some 2, Some 3], Outside (0, Next 5)]
            (stateful_new 0 :: (nat, nat, nat, unit, nat) stateful))"
      and ?c5.0 = "\<lambda>h s. Inl TypeError" and ?n5.0 = 1
      and ?i5.0 = "[Subscribe (Fn 1) [Some 2, Some 3], Outside (0, Next 5), Outside (1, Complete)]"
      and ?s5.0 = "projr (foreach (merge_step (\<lambda>h s. Inl TypeError) 1)
            [Subscribe (Fn 1) [Some 2, Some 3], Outside (0, Next 5), Outside (1, Complete)]
            (merged_new :: (nat, nat, nat, unit) merged))"
      and ?c6.0 = "\<lambda>h s. Inl TypeError" and ?n6.0 = 1
      and ?i6.0 = "[Subscribe (Fn 1) [Some 2, Some 3], Outside (0, Next 5), Outside (1, Next 6)]"
      and ?s6.0 = "projr (foreach (zip_step (\<lambda>h s. Inl TypeError) 1)
            [Subscribe (Fn 1) [Some 2, Some 3], Outside (0, Next 5), Outside (1, Next 6)]
            (zipped_new :: (nat, nat, nat, unit) zipped))"]
  by (simp add: engine_defs map_step_def map_mount_def map_observer_def combinator_new_def
        filter_step_def filter_mount_def filter_observer_def
        fold_step_def fold_mount_def fold_observer_def stateful_new_def
        scan_step_def scan_mount_def scan_observer_def
        merge_step_def merge_mount_def merge_observer_def merged_new_def onComplete_def
        zip_step_def zip_mount_def zip_observer_def zipped_new_def onNext_def array_def store_def)
























lemma fold_subscribe_upstream:
  "fold (subscribe_upstream m) js s = s\<lparr>upstream := upstream s @ map (Pair m) js\<rparr>"
  by (induction js arbitrary: s) (simp_all add: subscribe_upstream_def)

lemma onComplete_effect:
  "onComplete n m t = Inr t' \<Longrightarrow>
   unmount t' = unmount t \<and> upstream t' = upstream t \<and> mounts t' = mounts t
   \<and> count_var t' = (count_var t)(m := Suc (count_var t m))
   \<and> completed t' = (if n \<le> count_var t m then completed t @ [m] else completed t)"
  by (auto simp: onComplete_def Let_def split: if_splits dest!: completeHandler_frame)

lemma merge_observer_effect:
  "merge_observer n m ev t = Inr t' \<Longrightarrow>
   unmount t' = unmount t \<and> upstream t' = upstream t \<and> mounts t' = mounts t
   \<and> count_var t' = (if ev = Complete then (count_var t)(m := Suc (count_var t m))
                      else count_var t)
   \<and> completed t' = (if ev = Complete \<and> n \<le> count_var t m then completed t @ [m]
                      else completed t)"
  by (cases ev)
     (auto simp: merge_observer_def dest!: onComplete_effect nextHandler_frame errorHandler_frame)

lemma onNext_effect:
  "onNext n m a index t = Inr t' \<Longrightarrow>
   unmount t' = unmount t \<and> upstream t' = upstream t \<and> mounts t' = mounts t
   \<and> count_var t' = count_var t \<and> completed t' = completed t"
  by (auto simp: onNext_def Let_def and_then_eq_Inr split: if_splits dest!: nextHandler_frame)

lemma zip_observer_effect:
  "zip_observer n m index ev t = Inr t' \<Longrightarrow>
   unmount t' = unmount t \<and> upstream t' = upstream t \<and> mounts t' = mounts t
   \<and> count_var t' = (if ev = Complete then (count_var t)(m := Suc (count_var t m))
                      else count_var t)
   \<and> completed t' = (if ev = Complete \<and> n \<le> count_var t m then completed t @ [m]
                      else completed t)"
  by (cases ev)
     (auto simp: zip_observer_def dest!: onComplete_effect onNext_effect errorHandler_frame)

lemma merge_mount_effect:
  "merge_mount n t = Inr (r, t') \<Longrightarrow>
   r = Undefined \<and> upstream t' = upstream t @ map (Pair (mounts t)) [0..<Suc n]
   \<and> mounts t' = Suc (mounts t) \<and> count_var t' = (count_var t)(mounts t := 0)
   \<and> completed t' = completed t"
  by (auto simp: merge_mount_def mounting_def fold_subscribe_upstream simp del: upt_Suc)

lemma zip_mount_effect:
  "zip_mount n t = Inr (r, t') \<Longrightarrow>
   r = Undefined \<and> upstream t' = upstream t @ map (Pair (mounts t)) [0..<Suc n]
   \<and> mounts t' = Suc (mounts t) \<and> count_var t' = (count_var t)(mounts t := 0)
   \<and> completed t' = completed t"
  by (auto simp: zip_mount_def mounting_def fold_subscribe_upstream simp del: upt_Suc)

text \<open>
  A broadcast of the upstream signal \<open>i\<close> reaches the observers of the subscriptions
  \<open>ups\<close> made on it, in turn: a completion adds one to the counter of a run of the mount
  function for each subscription that run has made on this upstream signal.
\<close>

lemma foreach_join:
  fixes s :: "('f, 'a, 'e, 'h, 'm) merged_scheme"
  assumes eff: "\<And>m j t t'. obs m j ev t = Inr t' \<Longrightarrow>
           unmount t' = unmount t \<and> upstream t' = upstream t \<and> mounts t' = mounts t
           \<and> count_var t' = (if ev = Complete then (count_var t)(m := Suc (count_var t m))
                              else count_var t)
           \<and> completed t' = (if ev = Complete \<and> n \<le> count_var t m then completed t @ [m]
                              else completed t)"
    and run: "foreach (\<lambda>(m, j) s'. if j = i then obs m j ev s' else Inr s') ups s = Inr s'"
  shows "unmount s' = unmount s \<and> upstream s' = upstream s \<and> mounts s' = mounts s
       \<and> (\<forall>m. count_var s' m
              = count_var s m + (if ev = Complete then length (filter (\<lambda>x. x = (m, i)) ups) else 0))
       \<and> ((\<forall>m. count_list (completed s) m = count_var s m - n)
            \<longrightarrow> (\<forall>m. count_list (completed s') m = count_var s' m - n))
       \<and> set (completed s') \<subseteq> set (completed s) \<union> fst ` set ups"
  using run
proof (induction ups arbitrary: s)
  case Nil
  then show ?case by simp
next
  case (Cons x ups)
  obtain m j where x: "x = (m, j)" by (cases x)
  show ?case
  proof (cases "j = i")
    case False
    then have "foreach (\<lambda>(m, j) s'. if j = i then obs m j ev s' else Inr s') ups s = Inr s'"
      using Cons.prems x by simp
    from Cons.IH [OF this] show ?thesis
      using False x by auto
  next
    case True
    then obtain t where t: "obs m i ev s = Inr t"
      and r: "foreach (\<lambda>(m, j) s'. if j = i then obs m j ev s' else Inr s') ups t = Inr s'"
      using Cons.prems x by (auto simp: and_then_eq_Inr)
    note e = eff [OF t]
    note ih = Cons.IH [OF r]
    have a: "unmount s' = unmount s \<and> upstream s' = upstream s \<and> mounts s' = mounts s"
      using e ih by simp
    have b: "\<forall>m'. count_var s' m'
              = count_var s m' + (if ev = Complete then length (filter (\<lambda>y. y = (m', i)) (x # ups)) else 0)"
      using e ih True x by auto
    have c: "\<forall>m'. count_list (completed t) m' = count_var t m' - n"
      if "\<forall>m'. count_list (completed s) m' = count_var s m' - n"
      using e that by (auto simp: Suc_diff_le)
    have d: "set (completed s') \<subseteq> set (completed s) \<union> fst ` set (x # ups)"
      using e ih x by (auto split: if_splits)
    show ?thesis
      using a b c d ih by blast
  qed
qed

lemma count_pair_le_one: "distinct ups \<Longrightarrow> length (filter (\<lambda>x. x = p) ups) \<le> Suc 0"
  by (induction ups) (auto simp: filter_empty_conv)

text \<open>
  What holds in every state of a merge or zip signal, after \<open>k\<close> upstream completions:
  the stored value is not a function; a run of the mount function has made at most one
  subscription on each upstream signal; \<open>complete()\<close> has been called for a run once for
  each unit by which its counter exceeds \<open>n\<close>; and no counter exceeds \<open>k\<close>.
\<close>

lemma join_step:
  fixes s :: "('f, 'a, 'e, 'h, 'm) merged_scheme"
  assumes "step mount call (upstream_emit obs) i s = Inr s'"
    and "unmount s \<in> {Subscription_object, Undefined}
         \<and> distinct (upstream s)
         \<and> (\<forall>x \<in> set (upstream s). fst x < mounts s)
         \<and> (\<forall>m \<in> set (completed s). m < mounts s)
         \<and> (\<forall>m. count_list (completed s) m = count_var s m - n)
         \<and> (\<forall>m. count_var s m \<le> k)"
    and "\<And>t r t'. mount t = Inr (r, t') \<Longrightarrow>
           r = Undefined \<and> upstream t' = upstream t @ map (Pair (mounts t)) [0..<Suc n]
           \<and> mounts t' = Suc (mounts t) \<and> count_var t' = (count_var t)(mounts t := 0)
           \<and> completed t' = completed t"
    and "\<And>m j ev t t'. obs m j ev t = Inr t' \<Longrightarrow>
           unmount t' = unmount t \<and> upstream t' = upstream t \<and> mounts t' = mounts t
           \<and> count_var t' = (if ev = Complete then (count_var t)(m := Suc (count_var t m))
                              else count_var t)
           \<and> completed t' = (if ev = Complete \<and> n \<le> count_var t m then completed t @ [m]
                              else completed t)"
  shows "unmount s' \<in> {Subscription_object, Undefined}
         \<and> distinct (upstream s')
         \<and> (\<forall>x \<in> set (upstream s'). fst x < mounts s')
         \<and> (\<forall>m \<in> set (completed s'). m < mounts s')
         \<and> (\<forall>m. count_list (completed s') m = count_var s' m - n)
         \<and> (\<forall>m. count_var s' m \<le> (k + length (filter (\<lambda>x. snd x = Complete) (outside_events [i]))))"
proof (cases i)
  case (Subscribe ob args)
  show ?thesis
  proof (cases "subscriptions s = []")
    case True
    with Subscribe assms(1) obtain r t' where
      m: "mount (s\<lparr>allocated := Suc (allocated s),
                    subscriptions := [(allocated s, normalize ob args)]\<rparr>) = Inr (r, t')"
      and s': "s' = t'\<lparr>unmount := r\<rparr>"
      by (auto simp: subscribe_def Let_def and_then_eq_Inr)
    note e = assms(3) [OF m]
    have "\<forall>m. count_list (completed s) m = count_var s m - n" using assms(2) by simp
    moreover have "count_list (completed s) (mounts s) = 0"
    proof -
      have "\<forall>m \<in> set (completed s). m < mounts s" using assms(2) by simp
      then have "mounts s \<notin> set (completed s)" by auto
      then show ?thesis by (simp add: count_list_0_iff)
    qed
    ultimately have "\<forall>m. count_list (completed s') m = count_var s' m - n"
      using e s' by simp
    moreover have "distinct (upstream s')"
      using e s' assms(2) by (auto simp: distinct_map inj_on_def simp del: upt_Suc)
    moreover have "\<forall>m. count_var s' m \<le> k + length (filter (\<lambda>x. snd x = Complete) (outside_events [i]))"
      using e s' assms(2) Subscribe by simp
    ultimately show ?thesis
      using e s' assms(2) by (auto simp: less_Suc_eq simp del: upt_Suc)
  next
    case False
    with Subscribe assms(1) have "s' = s\<lparr>allocated := Suc (allocated s),
        subscriptions := subscriptions s @ [(allocated s, normalize ob args)]\<rparr>"
      by (auto simp: subscribe_def Let_def)
    then show ?thesis
      using assms(2) Subscribe by simp
  qed
next
  case (Unsubscribe sub)
  then have "s' = s \<or> s' = s\<lparr>subscriptions := filter (\<lambda>x. fst x \<noteq> sub) (subscriptions s),
                               inert := insert sub (inert s)\<rparr>"
    using assms(1,2) by (auto simp: unsubscribe_no_function split: if_splits)
  then show ?thesis
    using assms(2) Unsubscribe by (elim disjE) simp_all
next
  case (Outside x)
  obtain j ev where x: "x = (j, ev)" by (cases x)
  have run: "foreach (\<lambda>(m, j') s'. if j' = j then obs m j' ev s' else Inr s') (upstream s) s = Inr s'"
    using assms(1) unfolding Outside x step.simps upstream_emit_def fst_conv snd_conv .
  have f: "unmount s' = unmount s \<and> upstream s' = upstream s \<and> mounts s' = mounts s
       \<and> (\<forall>m. count_var s' m
              = count_var s m
                + (if ev = Complete then length (filter (\<lambda>x. x = (m, j)) (upstream s)) else 0))
       \<and> ((\<forall>m. count_list (completed s) m = count_var s m - n)
            \<longrightarrow> (\<forall>m. count_list (completed s') m = count_var s' m - n))
       \<and> set (completed s') \<subseteq> set (completed s) \<union> fst ` set (upstream s)"
    by (rule foreach_join [where obs = obs and n = n and ev = ev, OF _ run]) (erule assms(4))
  have cnt: "count_var s' m
      = count_var s m + (if ev = Complete then length (filter (\<lambda>y. y = (m, j)) (upstream s)) else 0)"
    for m
    using f by blast
  have le1: "length (filter (\<lambda>y. y = (m, j)) (upstream s)) \<le> Suc 0" for m
    using assms(2) by (simp add: count_pair_le_one)
  have k: "count_var s m \<le> k" for m
    using assms(2) by blast
  have "count_var s' m \<le> k + length (filter (\<lambda>x. snd x = Complete) (outside_events [i]))" for m
    using cnt [of m] le1 [of m] k [of m] Outside x by (cases "ev = Complete") simp_all
  moreover have "\<forall>m \<in> set (completed s'). m < mounts s'"
    using f assms(2) by auto
  moreover have "\<forall>m. count_list (completed s') m = count_var s' m - n"
    using f assms(2) by blast
  moreover have "unmount s' = unmount s \<and> upstream s' = upstream s \<and> mounts s' = mounts s"
    using f by blast
  ultimately show ?thesis
    using assms(2) by simp
qed

lemma outside_events_Cons:
  "outside_events (i # inputs) = outside_events [i] @ outside_events inputs"
  by (cases i) simp_all

lemma join_run:
  fixes s :: "('f, 'a, 'e, 'h, 'm) merged_scheme"
  assumes "foreach (step mount call (upstream_emit obs)) inputs s = Inr s'"
    and "unmount s \<in> {Subscription_object, Undefined}
         \<and> distinct (upstream s)
         \<and> (\<forall>x \<in> set (upstream s). fst x < mounts s)
         \<and> (\<forall>m \<in> set (completed s). m < mounts s)
         \<and> (\<forall>m. count_list (completed s) m = count_var s m - n)
         \<and> (\<forall>m. count_var s m \<le> k)"
    and "\<And>t r t'. mount t = Inr (r, t') \<Longrightarrow>
           r = Undefined \<and> upstream t' = upstream t @ map (Pair (mounts t)) [0..<Suc n]
           \<and> mounts t' = Suc (mounts t) \<and> count_var t' = (count_var t)(mounts t := 0)
           \<and> completed t' = completed t"
    and "\<And>m j ev t t'. obs m j ev t = Inr t' \<Longrightarrow>
           unmount t' = unmount t \<and> upstream t' = upstream t \<and> mounts t' = mounts t
           \<and> count_var t' = (if ev = Complete then (count_var t)(m := Suc (count_var t m))
                              else count_var t)
           \<and> completed t' = (if ev = Complete \<and> n \<le> count_var t m then completed t @ [m]
                              else completed t)"
  shows "unmount s' \<in> {Subscription_object, Undefined}
         \<and> distinct (upstream s')
         \<and> (\<forall>x \<in> set (upstream s'). fst x < mounts s')
         \<and> (\<forall>m \<in> set (completed s'). m < mounts s')
         \<and> (\<forall>m. count_list (completed s') m = count_var s' m - n)
         \<and> (\<forall>m. count_var s' m \<le> (k + length (filter (\<lambda>x. snd x = Complete) (outside_events inputs))))"
  using assms(1,2)
proof (induction inputs arbitrary: s k)
  case Nil
  then show ?case by simp
next
  case (Cons i inputs)
  from Cons.prems(1) obtain t where t: "step mount call (upstream_emit obs) i s = Inr t"
    and r: "foreach (step mount call (upstream_emit obs)) inputs t = Inr s'"
    by (auto simp: and_then_eq_Inr)
  have "unmount t \<in> {Subscription_object, Undefined}
         \<and> distinct (upstream t)
         \<and> (\<forall>x \<in> set (upstream t). fst x < mounts t)
         \<and> (\<forall>m \<in> set (completed t). m < mounts t)
         \<and> (\<forall>m. count_list (completed t) m = count_var t m - n)
         \<and> (\<forall>m. count_var t m \<le> (k + length (filter (\<lambda>x. snd x = Complete) (outside_events [i]))))"
    by (rule join_step [OF t Cons.prems(2) assms(3,4)])
  from Cons.IH [OF r this] show ?case
    by (simp add: outside_events_Cons [of i inputs] add.assoc del: outside_events.simps)
qed

lemma completions_bounded:
  assumes "distinct (map fst (filter (\<lambda>x. snd x = Complete) es))" and "\<forall>x \<in> set es. fst x \<le> n"
  shows "length (filter (\<lambda>x. snd x = Complete) es) \<le> Suc n"
proof -
  let ?is = "map fst (filter (\<lambda>x. snd x = Complete) es)"
  have "set ?is \<subseteq> {0..n}" using assms(2) by auto
  then have "card (set ?is) \<le> card {0..n}" by (intro card_mono) auto
  then show ?thesis using distinct_card [OF assms(1)] by simp
qed

lemma join_counts:
  fixes s s' :: "('f, 'a, 'e, 'h, 'm) merged_scheme"
  assumes "foreach (step mount call (upstream_emit obs)) inputs s = Inr s'"
    and "unmount s \<in> {Subscription_object, Undefined}
         \<and> distinct (upstream s)
         \<and> (\<forall>x \<in> set (upstream s). fst x < mounts s)
         \<and> (\<forall>m \<in> set (completed s). m < mounts s)
         \<and> (\<forall>m. count_list (completed s) m = count_var s m - n)
         \<and> (\<forall>m. count_var s m \<le> 0)"
    and "\<And>t r t'. mount t = Inr (r, t') \<Longrightarrow>
           r = Undefined \<and> upstream t' = upstream t @ map (Pair (mounts t)) [0..<Suc n]
           \<and> mounts t' = Suc (mounts t) \<and> count_var t' = (count_var t)(mounts t := 0)
           \<and> completed t' = completed t"
    and "\<And>m j ev t t'. obs m j ev t = Inr t' \<Longrightarrow>
           unmount t' = unmount t \<and> upstream t' = upstream t \<and> mounts t' = mounts t
           \<and> count_var t' = (if ev = Complete then (count_var t)(m := Suc (count_var t m))
                              else count_var t)
           \<and> completed t' = (if ev = Complete \<and> n \<le> count_var t m then completed t @ [m]
                              else completed t)"
    and "distinct (map fst (filter (\<lambda>x. snd x = Complete) (outside_events inputs)))"
    and "\<forall>x \<in> set (outside_events inputs). fst x \<le> n"
  shows "count_var s' m \<le> length (filter (\<lambda>x. snd x = Complete) (outside_events inputs))
       \<and> length (filter (\<lambda>x. snd x = Complete) (outside_events inputs)) \<le> Suc n
       \<and> count_list (completed s') m = (if count_var s' m = Suc n then 1 else 0)"
proof -
  note inv = join_run [OF assms(1,2,3,4)]
  have b: "length (filter (\<lambda>x. snd x = Complete) (outside_events inputs)) \<le> Suc n"
    by (rule completions_bounded [OF assms(5,6)])
  have c: "count_var s' m \<le> length (filter (\<lambda>x. snd x = Complete) (outside_events inputs))"
    using inv by simp
  have "count_list (completed s') m = count_var s' m - n"
    using inv by simp
  then show ?thesis
    using b c by auto
qed

lemma foreach_Outside:
  "foreach (step mount call outside) (map Outside xs) s = foreach outside xs s"
  by (induction xs arbitrary: s) (auto simp: and_then_def split: sum.splits)

lemma foreach_no_match:
  "i \<notin> set js \<Longrightarrow>
   foreach (\<lambda>(m, j) s'. if j = i then observer m j ev s' else Inr s') (map (Pair k) js) s = Inr s"
  by (induction js) auto

lemma and_then_Inr_right [simp]: "and_then r Inr = r"
  by (cases r) simp_all

lemma foreach_one_match:
  "distinct js \<Longrightarrow> i \<in> set js \<Longrightarrow>
   foreach (\<lambda>(m, j) s'. if j = i then observer m j ev s' else Inr s') (map (Pair k) js) s
   = observer k i ev s"
proof (induction js)
  case Nil
  then show ?case by simp
next
  case (Cons j js)
  show ?case
  proof (cases "j = i")
    case True
    then have "i \<notin> set js" using Cons.prems by simp
    then have "foreach (\<lambda>(m, j) s'. if j = i then observer m j ev s' else Inr s') (map (Pair k) js)
               = Inr"
      by (auto simp: foreach_no_match)
    then show ?thesis using True by simp
  next
    case False
    then show ?thesis using Cons by simp
  qed
qed

lemma upstream_emit_first_mount:
  assumes "upstream s = map (Pair 0) [0..<Suc n]" and "i \<le> n"
  shows "upstream_emit observer (i, ev) s = observer 0 i ev s"
  unfolding upstream_emit_def assms(1) fst_conv snd_conv
  using foreach_one_match [of "[0..<Suc n]" i observer ev 0 s] assms(2)
  by (simp del: upt_Suc)

lemma first_mount_run:
  fixes s :: "('f, 'a, 'e, 'h, 'm) merged_scheme"
    and stp :: "nat \<times> ('c, 'e) event \<Rightarrow> ('f, 'a, 'e, 'h, 'm) merged_scheme \<Rightarrow>
                error + ('f, 'a, 'e, 'h, 'm) merged_scheme"
  assumes step: "\<And>t i ev. subscriptions t = subs \<Longrightarrow> upstream t = ups \<Longrightarrow> i \<le> n \<Longrightarrow>
       \<exists>t'. stp (i, ev) t = Inr t' \<and> subscriptions t' = subs \<and> upstream t' = ups
         \<and> count_var t' 0 = count_var t 0 + (if ev = Complete then 1 else 0)
         \<and> length (filter (\<lambda>c. snd c = Complete) (calls t'))
           = length (filter (\<lambda>c. snd c = Complete) (calls t))
             + (if ev = Complete \<and> n < Suc (count_var t 0) then 1 else 0)"
    and "subscriptions s = subs" and "upstream s = ups" and "\<forall>x \<in> set es. fst x \<le> n"
  shows "\<exists>s'. foreach stp es s = Inr s' \<and> subscriptions s' = subs \<and> upstream s' = ups
      \<and> count_var s' 0 = count_var s 0 + length (filter (\<lambda>x. snd x = Complete) es)
      \<and> length (filter (\<lambda>c. snd c = Complete) (calls s'))
        = length (filter (\<lambda>c. snd c = Complete) (calls s))
          + ((count_var s 0 + length (filter (\<lambda>x. snd x = Complete) es) - n) - (count_var s 0 - n))"
  using assms(2-)
proof (induction es arbitrary: s)
  case Nil
  then show ?case by simp
next
  case (Cons x es)
  obtain i ev where x: "x = (i, ev)" by (cases x)
  have "i \<le> n" using Cons.prems(3) x by simp
  from step [OF Cons.prems(1,2) this, of ev] obtain t where t:
    "stp (i, ev) s = Inr t" "subscriptions t = subs" "upstream t = ups"
    "count_var t 0 = count_var s 0 + (if ev = Complete then 1 else 0)"
    "length (filter (\<lambda>c. snd c = Complete) (calls t))
           = length (filter (\<lambda>c. snd c = Complete) (calls s))
             + (if ev = Complete \<and> n < Suc (count_var s 0) then 1 else 0)"
    by blast
  have "\<forall>x \<in> set es. fst x \<le> n" using Cons.prems(3) by simp
  from Cons.IH [OF t(2,3) this] obtain s' where s':
    "foreach stp es t = Inr s'" "subscriptions s' = subs" "upstream s' = ups"
    "count_var s' 0 = count_var t 0 + length (filter (\<lambda>x. snd x = Complete) es)"
    "length (filter (\<lambda>c. snd c = Complete) (calls s'))
        = length (filter (\<lambda>c. snd c = Complete) (calls t))
          + ((count_var t 0 + length (filter (\<lambda>x. snd x = Complete) es) - n) - (count_var t 0 - n))"
    by blast
  have "foreach stp (x # es) s = Inr s'"
    using t(1) s'(1) x by simp
  moreover have "count_var s' 0 = count_var s 0 + length (filter (\<lambda>x. snd x = Complete) (x # es))"
    using s'(4) t(4) x by simp
  moreover have "length (filter (\<lambda>c. snd c = Complete) (calls s'))
        = length (filter (\<lambda>c. snd c = Complete) (calls s))
          + ((count_var s 0 + length (filter (\<lambda>x. snd x = Complete) (x # es)) - n) - (count_var s 0 - n))"
    using s'(5) t(4,5) x by (cases "ev = Complete") auto
  ultimately show ?case
    using s'(2,3) by blast
qed

lemma onComplete_only_subscriber:
  fixes s :: "('f, 'a, 'e, 'h, 'm) merged_scheme"
  assumes "subscriptions s = [(k, Some \<lparr>next = Some nx, error = Some er, complete = Some cp\<rparr>)]"
  shows "onComplete n m s =
     Inr (if n < Suc (count_var s m)
          then s\<lparr>count_var := (count_var s)(m := Suc (count_var s m)),
                 completed := completed s @ [m], calls := calls s @ [(cp, Complete)]\<rparr>
          else s\<lparr>count_var := (count_var s)(m := Suc (count_var s m))\<rparr>)"
  using assms by (simp add: onComplete_def Let_def completeHandler_eq callback_def)

lemma merge_observer_step:
  fixes t :: "('f, 'a, 'e, 'h, 'm) merged_scheme"
  assumes "subscriptions t = [(0, Some \<lparr>next = Some nx, error = Some er, complete = Some cp\<rparr>)]"
  shows "\<exists>t'. merge_observer n 0 ev t = Inr t'
         \<and> subscriptions t' = subscriptions t \<and> upstream t' = upstream t
         \<and> count_var t' 0 = count_var t 0 + (if ev = Complete then 1 else 0)
         \<and> length (filter (\<lambda>c. snd c = Complete) (calls t'))
           = length (filter (\<lambda>c. snd c = Complete) (calls t))
             + (if ev = Complete \<and> n < Suc (count_var t 0) then 1 else 0)"
  using assms
  by (cases ev)
     (simp_all add: merge_observer_def onComplete_only_subscriber nextHandler_eq errorHandler_eq
        callback_def)

lemma zip_observer_step:
  fixes t :: "('f, 'v, 'e, 'h, 'm) zipped_scheme"
  assumes "subscriptions t = [(0, Some \<lparr>next = Some nx, error = Some er, complete = Some cp\<rparr>)]"
  shows "\<exists>t'. zip_observer n 0 i ev t = Inr t'
         \<and> subscriptions t' = subscriptions t \<and> upstream t' = upstream t
         \<and> count_var t' 0 = count_var t 0 + (if ev = Complete then 1 else 0)
         \<and> length (filter (\<lambda>c. snd c = Complete) (calls t'))
           = length (filter (\<lambda>c. snd c = Complete) (calls t))
             + (if ev = Complete \<and> n < Suc (count_var t 0) then 1 else 0)"
  using assms
  by (cases ev)
     (simp_all add: zip_observer_def onNext_def Let_def onComplete_only_subscriber nextHandler_eq
        errorHandler_eq callback_def)

text \<open>
  Claim C3, as stated: with each upstream signal completing at most once, the downstream
  \<open>complete\<close> callback is called exactly once. The counter is declared inside the mount
  function and the subscriptions a run of the mount function makes on the upstream
  signals are never removed: after a subscriber has unsubscribed and another has
  subscribed, the mount function has run twice, both runs count the two completions,
  and the \<open>complete\<close> callback of the subscriber is called twice.
\<close>

theorem join_completes_twice_counterexample:
  "map_sum id calls
     (foreach (merge_step (\<lambda>h. Inr) 1)
        [Subscribe (Fn 7) [Some 8, Some 9], Unsubscribe 0, Subscribe (Fn 7) [Some 8, Some 9],
         Outside (0, Complete), Outside (1, Complete)]
        (merged_new :: (nat, nat, nat, unit) merged))
   = Inr [(9, Complete), (9, Complete)]
   \<and> map_sum id calls
     (foreach (zip_step (\<lambda>h. Inr) 1)
        [Subscribe (Fn 7) [Some 8, Some 9], Unsubscribe 0, Subscribe (Fn 7) [Some 8, Some 9],
         Outside (0, Complete), Outside (1, Complete)]
        (zipped_new :: (nat, nat, nat, unit) zipped))
   = Inr [(9, Complete), (9, Complete)]"
  by (simp add: engine_defs merge_step_def merge_mount_def merge_observer_def merged_new_def
        onComplete_def zip_step_def zip_mount_def zip_observer_def zipped_new_def)

text \<open>
  Claim C3, amended. For merge and zip over \<open>n + 1\<close> upstream signals (indices \<open>0\<close> to
  \<open>n\<close>), in every state the signal reaches from its construction through subscribes,
  unsubscribes and upstream broadcasts in which each upstream signal completes at most
  once: the counter of a run of the mount function is at most the number of upstream
  signals that have completed, which is at most \<open>n + 1\<close>, and \<open>complete()\<close> has been
  called for that run once if its counter has reached \<open>n + 1\<close> and not at all if it has
  not. This holds after every prefix of the inputs, so the one call of a run happens at
  the completion that brings its counter to \<open>n + 1\<close>. On a new signal with one
  subscriber, whose mount function has run once, the \<open>complete\<close> callback of the
  subscriber has been called once if all \<open>n + 1\<close> upstream signals have completed, and
  not at all if fewer have.
\<close>

theorem join_completes_once_per_mount:
  fixes es :: "(nat \<times> ('a, 'e) event) list" and es' :: "(nat \<times> ('v, 'e) event) list"
    and call :: "'h \<Rightarrow> ('f, 'a, 'e, 'h) merged \<Rightarrow> error + ('f, 'a, 'e, 'h) merged"
    and call' :: "'h \<Rightarrow> ('f, 'v, 'e, 'h) zipped \<Rightarrow> error + ('f, 'v, 'e, 'h) zipped"
    and s :: "('f, 'a, 'e, 'h) merged" and s' :: "('f, 'v, 'e, 'h) zipped"
  shows
  "(foreach (merge_step call n) inputs merged_new = Inr s \<longrightarrow>
      distinct (map fst (filter (\<lambda>x. snd x = Complete) (outside_events inputs))) \<longrightarrow>
      (\<forall>x \<in> set (outside_events inputs). fst x \<le> n) \<longrightarrow>
      count_var s m \<le> length (filter (\<lambda>x. snd x = Complete) (outside_events inputs))
      \<and> length (filter (\<lambda>x. snd x = Complete) (outside_events inputs)) \<le> Suc n
      \<and> count_list (completed s) m = (if count_var s m = Suc n then 1 else 0))
   \<and> (foreach (zip_step call' n) inputs' zipped_new = Inr s' \<longrightarrow>
      distinct (map fst (filter (\<lambda>x. snd x = Complete) (outside_events inputs'))) \<longrightarrow>
      (\<forall>x \<in> set (outside_events inputs'). fst x \<le> n) \<longrightarrow>
      count_var s' m \<le> length (filter (\<lambda>x. snd x = Complete) (outside_events inputs'))
      \<and> length (filter (\<lambda>x. snd x = Complete) (outside_events inputs')) \<le> Suc n
      \<and> count_list (completed s') m = (if count_var s' m = Suc n then 1 else 0))
   \<and> (distinct (map fst (filter (\<lambda>x. snd x = Complete) es)) \<longrightarrow> (\<forall>x \<in> set es. fst x \<le> n) \<longrightarrow>
      map_sum id (\<lambda>s. length (filter (\<lambda>c. snd c = Complete) (calls s)))
        (foreach (merge_step call n)
           (Subscribe (Obj \<lparr>next = Some nx, error = Some er, complete = Some cp\<rparr>) []
            # map Outside es)
           merged_new)
      = Inr (if length (filter (\<lambda>x. snd x = Complete) es) = Suc n then 1 else 0))
   \<and> (distinct (map fst (filter (\<lambda>x. snd x = Complete) es')) \<longrightarrow> (\<forall>x \<in> set es'. fst x \<le> n) \<longrightarrow>
      map_sum id (\<lambda>s. length (filter (\<lambda>c. snd c = Complete) (calls s)))
        (foreach (zip_step call' n)
           (Subscribe (Obj \<lparr>next = Some nx, error = Some er, complete = Some cp\<rparr>) []
            # map Outside es')
           zipped_new)
      = Inr (if length (filter (\<lambda>x. snd x = Complete) es') = Suc n then 1 else 0))"
proof (intro conjI impI)
  assume run: "foreach (merge_step call n) inputs merged_new = Inr s"
    and d: "distinct (map fst (filter (\<lambda>x. snd x = Complete) (outside_events inputs)))"
    and r: "\<forall>x \<in> set (outside_events inputs). fst x \<le> n"
  have "count_var s m \<le> length (filter (\<lambda>x. snd x = Complete) (outside_events inputs))
      \<and> length (filter (\<lambda>x. snd x = Complete) (outside_events inputs)) \<le> Suc n
      \<and> count_list (completed s) m = (if count_var s m = Suc n then 1 else 0)"
    using run unfolding merge_step_def
    by (rule join_counts [where n = n])
       (simp add: merged_new_def Signal_new_def, erule merge_mount_effect,
        erule merge_observer_effect, fact d, fact r)
  then show "count_var s m \<le> length (filter (\<lambda>x. snd x = Complete) (outside_events inputs))"
    and "length (filter (\<lambda>x. snd x = Complete) (outside_events inputs)) \<le> Suc n"
    and "count_list (completed s) m = (if count_var s m = Suc n then 1 else 0)"
    by simp_all
next
  assume run: "foreach (zip_step call' n) inputs' zipped_new = Inr s'"
    and d: "distinct (map fst (filter (\<lambda>x. snd x = Complete) (outside_events inputs')))"
    and r: "\<forall>x \<in> set (outside_events inputs'). fst x \<le> n"
  have "count_var s' m \<le> length (filter (\<lambda>x. snd x = Complete) (outside_events inputs'))
      \<and> length (filter (\<lambda>x. snd x = Complete) (outside_events inputs')) \<le> Suc n
      \<and> count_list (completed s') m = (if count_var s' m = Suc n then 1 else 0)"
    using run unfolding zip_step_def
    by (rule join_counts [where n = n])
       (simp add: zipped_new_def Signal_new_def, erule zip_mount_effect,
        erule zip_observer_effect, fact d, fact r)
  then show "count_var s' m \<le> length (filter (\<lambda>x. snd x = Complete) (outside_events inputs'))"
    and "length (filter (\<lambda>x. snd x = Complete) (outside_events inputs')) \<le> Suc n"
    and "count_list (completed s') m = (if count_var s' m = Suc n then 1 else 0)"
    by simp_all
next
  let ?ob = "\<lparr>next = Some nx, error = Some er, complete = Some cp\<rparr>"
  assume d: "distinct (map fst (filter (\<lambda>x. snd x = Complete) es))"
    and r: "\<forall>x \<in> set es. fst x \<le> n"
  let ?s0 = "\<lparr>subscriptions = [(0, Some ?ob)], unmount = Undefined, allocated = 1, calls = [], inert = {},
              upstream = map (Pair 0) [0..<Suc n], mounts = 1, count_var = (\<lambda>m. 0)(0 := 0),
              completed = []\<rparr>
             :: ('f, 'a, 'e, 'h) merged"
  have s0: "merge_step call n (Subscribe (Obj ?ob) []) merged_new = Inr ?s0"
    by (simp add: merge_step_def subscribe_def normalize_def merged_new_def Signal_new_def
          merge_mount_def mounting_def fold_subscribe_upstream del: upt_Suc)
  have "\<exists>s'. foreach (upstream_emit (\<lambda>m j. merge_observer n m)) es ?s0 = Inr s'
       \<and> subscriptions s' = [(0, Some ?ob)] \<and> upstream s' = map (Pair 0) [0..<Suc n]
       \<and> count_var s' 0 = count_var ?s0 0 + length (filter (\<lambda>x. snd x = Complete) es)
       \<and> length (filter (\<lambda>c. snd c = Complete) (calls s'))
        = length (filter (\<lambda>c. snd c = Complete) (calls ?s0))
          + ((count_var ?s0 0 + length (filter (\<lambda>x. snd x = Complete) es) - n) - (count_var ?s0 0 - n))"
  proof (rule first_mount_run [where n = n])
    show "subscriptions ?s0 = [(0, Some ?ob)]" "upstream ?s0 = map (Pair 0) [0..<Suc n]"
      by simp_all
    show "\<forall>x \<in> set es. fst x \<le> n" by fact
    show "\<exists>t'. upstream_emit (\<lambda>m j. merge_observer n m) (i, ev) t = Inr t'
         \<and> subscriptions t' = [(0, Some ?ob)] \<and> upstream t' = map (Pair 0) [0..<Suc n]
         \<and> count_var t' 0 = count_var t 0 + (if ev = Complete then 1 else 0)
         \<and> length (filter (\<lambda>c. snd c = Complete) (calls t'))
           = length (filter (\<lambda>c. snd c = Complete) (calls t))
             + (if ev = Complete \<and> n < Suc (count_var t 0) then 1 else 0)"
      if "subscriptions t = [(0, Some ?ob)]" "upstream t = map (Pair 0) [0..<Suc n]" "i \<le> n"
      for t :: "('f, 'a, 'e, 'h) merged" and i ev
      using merge_observer_step [OF that(1), of n ev] that
      by (simp add: upstream_emit_first_mount del: upt_Suc)
  qed
  then obtain s' where s':
    "foreach (upstream_emit (\<lambda>m j. merge_observer n m)) es ?s0 = Inr s'"
    "length (filter (\<lambda>c. snd c = Complete) (calls s')) = length (filter (\<lambda>x. snd x = Complete) es) - n"
    by auto
  have "length (filter (\<lambda>x. snd x = Complete) es) \<le> Suc n"
    using completions_bounded [OF d r] .
  then have "length (filter (\<lambda>x. snd x = Complete) es) - n
             = (if length (filter (\<lambda>x. snd x = Complete) es) = Suc n then 1 else 0)"
    by auto
  then show "map_sum id (\<lambda>s. length (filter (\<lambda>c. snd c = Complete) (calls s)))
        (foreach (merge_step call n) (Subscribe (Obj ?ob) [] # map Outside es) merged_new)
      = Inr (if length (filter (\<lambda>x. snd x = Complete) es) = Suc n then 1 else 0)"
    using s0 s' by (simp add: merge_step_def [symmetric]) (simp add: merge_step_def foreach_Outside)
next
  let ?ob = "\<lparr>next = Some nx, error = Some er, complete = Some cp\<rparr>"
  assume d: "distinct (map fst (filter (\<lambda>x. snd x = Complete) es'))"
    and r: "\<forall>x \<in> set es'. fst x \<le> n"
  let ?s0 = "\<lparr>subscriptions = [(0, Some ?ob)], unmount = Undefined, allocated = 1, calls = [], inert = {},
              upstream = map (Pair 0) [0..<Suc n], mounts = 1, count_var = (\<lambda>m. 0)(0 := 0),
              completed = [], as_var = (\<lambda>m. None)(0 := None)\<rparr>
             :: ('f, 'v, 'e, 'h) zipped"
  have s0: "zip_step call' n (Subscribe (Obj ?ob) []) zipped_new = Inr ?s0"
    by (simp add: zip_step_def subscribe_def normalize_def zipped_new_def Signal_new_def
          zip_mount_def mounting_def fold_subscribe_upstream del: upt_Suc)
  have "\<exists>s'. foreach (upstream_emit (zip_observer n)) es' ?s0 = Inr s'
       \<and> subscriptions s' = [(0, Some ?ob)] \<and> upstream s' = map (Pair 0) [0..<Suc n]
       \<and> count_var s' 0 = count_var ?s0 0 + length (filter (\<lambda>x. snd x = Complete) es')
       \<and> length (filter (\<lambda>c. snd c = Complete) (calls s'))
        = length (filter (\<lambda>c. snd c = Complete) (calls ?s0))
          + ((count_var ?s0 0 + length (filter (\<lambda>x. snd x = Complete) es') - n) - (count_var ?s0 0 - n))"
  proof (rule first_mount_run [where n = n])
    show "subscriptions ?s0 = [(0, Some ?ob)]" "upstream ?s0 = map (Pair 0) [0..<Suc n]"
      by simp_all
    show "\<forall>x \<in> set es'. fst x \<le> n" by fact
    show "\<exists>t'. upstream_emit (zip_observer n) (i, ev) t = Inr t'
         \<and> subscriptions t' = [(0, Some ?ob)] \<and> upstream t' = map (Pair 0) [0..<Suc n]
         \<and> count_var t' 0 = count_var t 0 + (if ev = Complete then 1 else 0)
         \<and> length (filter (\<lambda>c. snd c = Complete) (calls t'))
           = length (filter (\<lambda>c. snd c = Complete) (calls t))
             + (if ev = Complete \<and> n < Suc (count_var t 0) then 1 else 0)"
      if "subscriptions t = [(0, Some ?ob)]" "upstream t = map (Pair 0) [0..<Suc n]" "i \<le> n"
      for t :: "('f, 'v, 'e, 'h) zipped" and i ev
      using zip_observer_step [OF that(1), of n i ev] that
      by (simp add: upstream_emit_first_mount del: upt_Suc)
  qed
  then obtain s' where s':
    "foreach (upstream_emit (zip_observer n)) es' ?s0 = Inr s'"
    "length (filter (\<lambda>c. snd c = Complete) (calls s')) = length (filter (\<lambda>x. snd x = Complete) es') - n"
    by auto
  have "length (filter (\<lambda>x. snd x = Complete) es') \<le> Suc n"
    using completions_bounded [OF d r] .
  then have "length (filter (\<lambda>x. snd x = Complete) es') - n
             = (if length (filter (\<lambda>x. snd x = Complete) es') = Suc n then 1 else 0)"
    by auto
  then show "map_sum id (\<lambda>s. length (filter (\<lambda>c. snd c = Complete) (calls s)))
        (foreach (zip_step call' n) (Subscribe (Obj ?ob) [] # map Outside es') zipped_new)
      = Inr (if length (filter (\<lambda>x. snd x = Complete) es') = Suc n then 1 else 0)"
    using s0 s' by (simp add: zip_step_def [symmetric]) (simp add: zip_step_def foreach_Outside)
qed


theorem join_completes_once_per_mount_witness:
  "map_sum id (\<lambda>s. (map (count_var s) [0, 1, 2], completed s, calls s))
     (foreach (merge_step (\<lambda>h. Inr) 1)
        [Subscribe (Fn 7) [Some 8, Some 9], Unsubscribe 0, Subscribe (Fn 7) [Some 8, Some 9],
         Outside (0, Complete), Unsubscribe 1, Subscribe (Fn 7) [Some 8, Some 9],
         Outside (1, Complete)]
        (merged_new :: (nat, nat, nat, unit) merged))
   = Inr ([2, 2, 1], [0, 1], [(9, Complete), (9, Complete)])
   \<and> count_list
       (completed (projr (foreach (merge_step (\<lambda>h. Inr) 1)
          [Subscribe (Fn 7) [Some 8, Some 9], Unsubscribe 0, Subscribe (Fn 7) [Some 8, Some 9],
           Outside (0, Complete), Unsubscribe 1, Subscribe (Fn 7) [Some 8, Some 9],
           Outside (1, Complete)]
          (merged_new :: (nat, nat, nat, unit) merged)))) 2
     = 0
   \<and> map_sum id (\<lambda>s. (map (count_var s) [0, 1, 2], completed s, calls s))
     (foreach (zip_step (\<lambda>h. Inr) 1)
        [Subscribe (Fn 7) [Some 8, Some 9], Outside (0, Next 5), Outside (0, Complete),
         Outside (1, Complete)]
        (zipped_new :: (nat, nat, nat, unit) zipped))
   = Inr ([2, 0, 0], [0], [(9, Complete)])
   \<and> count_list
       (completed (projr (foreach (zip_step (\<lambda>h. Inr) 1)
          [Subscribe (Fn 7) [Some 8, Some 9], Outside (0, Next 5), Outside (0, Complete),
           Outside (1, Complete)]
          (zipped_new :: (nat, nat, nat, unit) zipped)))) 0
     = 1
   \<and> map_sum id (\<lambda>s. length (filter (\<lambda>c. snd c = Complete) (calls s)))
     (foreach (merge_step (\<lambda>h. Inr) 1)
        (Subscribe (Obj \<lparr>next = Some 1, error = Some 2, complete = Some 3\<rparr>) []
         # map Outside [(0, Next 10), (0, Complete), (1, Next 20), (1, Complete)])
        (merged_new :: (nat, nat, nat, unit) merged))
   = Inr 1
   \<and> map_sum id (\<lambda>s. length (filter (\<lambda>c. snd c = Complete) (calls s)))
     (foreach (zip_step (\<lambda>h. Inr) 1)
        (Subscribe (Obj \<lparr>next = Some 1, error = Some 2, complete = Some 3\<rparr>) []
         # map Outside [(0, Next 10), (0, Complete), (1, Complete)])
        (zipped_new :: (nat, nat, nat, unit) zipped))
   = Inr 1"
proof -
  let ?i = "[Subscribe (Fn 7) [Some 8, Some 9], Unsubscribe 0, Subscribe (Fn 7) [Some 8, Some 9],
      Outside (0, Complete), Unsubscribe 1, Subscribe (Fn 7) [Some 8, Some 9],
      Outside (1, Complete)] :: (nat, nat \<times> (nat, nat) event) input list"
  let ?i' = "[Subscribe (Fn 7) [Some 8, Some 9], Outside (0, Next 5), Outside (0, Complete),
      Outside (1, Complete)] :: (nat, nat \<times> (nat, nat) event) input list"
  have d: "distinct (map fst (filter (\<lambda>x. snd x = Complete) (outside_events ?i)))"
    "distinct (map fst (filter (\<lambda>x. snd x = Complete) (outside_events ?i')))"
    "distinct (map fst (filter (\<lambda>x. snd x = Complete)
             [(0::nat, Next 10), (0, Complete), (1, Next 20), (1, Complete :: (nat, nat) event)]))"
    "distinct (map fst (filter (\<lambda>x. snd x = Complete)
             [(0::nat, Next 10), (0, Complete), (1, Complete :: (nat, nat) event)]))"
    by simp_all
  have r: "\<forall>x \<in> set (outside_events ?i). fst x \<le> 1"
    "\<forall>x \<in> set (outside_events ?i'). fst x \<le> 1"
    "\<forall>x \<in> set [(0::nat, Next 10), (0, Complete), (1, Next 20), (1, Complete :: (nat, nat) event)]. fst x \<le> 1"
    "\<forall>x \<in> set [(0::nat, Next 10), (0, Complete), (1, Complete :: (nat, nat) event)]. fst x \<le> 1"
    by simp_all
  show ?thesis
    using d r join_completes_once_per_mount [where n = 1 and m = 2
        and nx = "1::nat" and er = "2::nat" and cp = "3::nat"
        and call = "(\<lambda>h. Inr) :: unit \<Rightarrow> (nat, nat, nat, unit) merged \<Rightarrow> error + (nat, nat, nat, unit) merged"
        and call' = "(\<lambda>h. Inr) :: unit \<Rightarrow> (nat, nat, nat, unit) zipped \<Rightarrow> error + (nat, nat, nat, unit) zipped"
        and inputs = ?i and inputs' = ?i'
        and s = "projr (foreach (merge_step (\<lambda>h. Inr) 1) ?i (merged_new :: (nat, nat, nat, unit) merged))"
        and s' = "projr (foreach (zip_step (\<lambda>h. Inr) 1) ?i' (zipped_new :: (nat, nat, nat, unit) zipped))"
        and es = "[(0::nat, Next 10), (0, Complete), (1, Next 20), (1, Complete :: (nat, nat) event)]"
        and es' = "[(0::nat, Next 10), (0, Complete), (1, Complete :: (nat, nat) event)]"]
    by (simp add: engine_defs merge_step_def merge_mount_def merge_observer_def merged_new_def
          onComplete_def zip_step_def zip_mount_def zip_observer_def zipped_new_def
          onNext_def array_def store_def)
qed

text \<open>
  Claim C2 says that zip emits a tuple only once every slot of the current round has
  been filled, and holds the values that arrive earlier. The code compares the length of
  the buffer with \<open>ss.length\<close>, and the length grows only when the slot of the last
  upstream signal is assigned. With two upstream signals: a value 7 of the second one,
  arriving first, is emitted at once in the tuple \<open>[undefined, 7]\<close>; and after the
  values 1 and 2 of the first signal, the values 10 and 20 of the second are emitted as
  \<open>[2, 10]\<close> and \<open>[undefined, 20]\<close>: the value 1 is lost and both tuples leave before
  their round is full.
\<close>

theorem zip_emits_incomplete_round:
  "map_sum id calls
     (foreach (zip_step (\<lambda>h. Inr) 1)
        [Subscribe (Fn 1) [Some 2, Some 3], Outside (1, Next 7)]
        (zipped_new :: (nat, nat, nat, unit) zipped))
   = Inr [(1, Next [None, Some 7])]
   \<and> map_sum id calls
     (foreach (zip_step (\<lambda>h. Inr) 1)
        [Subscribe (Fn 1) [Some 2, Some 3], Outside (0, Next 1), Outside (0, Next 2),
         Outside (1, Next 10), Outside (1, Next 20)]
        (zipped_new :: (nat, nat, nat, unit) zipped))
   = Inr [(1, Next [Some 2, Some 10]), (1, Next [None, Some 20])]"
  by (simp add: engine_defs zip_step_def zip_mount_def zip_observer_def zipped_new_def
        onNext_def array_def store_def)

text \<open>
  Claim C7 says that when the delay signal unmounts every pending delivery is cancelled.
  With a delay of 5, the upstream signal emits 10 and 20 and completes, and the only
  subscriber then unsubscribes, all before a tick. The unmount function of \<open>delay\<close>
  clears the timer in \<open>id\<close>, which is the one set for 20: the timers of 10 and of the
  completion stay pending, and the timer of 10 runs when it is due, after the unmount
  (its task \<open>emit.next(10)\<close> throws, since \<open>emit\<close> is the next handler; had the
  timers been cleared, the ticks would run nothing and nothing would throw). The mount
  function of \<open>Signal.prototype.delay\<close> returns a Subscription object, so nothing is
  cleared, all three timers stay pending, and a subscriber that arrives before they are
  due receives 10, 20 and the completion.
\<close>

theorem delay_leaves_timers_pending:
  "map_sum id (\<lambda>s. (subscriptions s, timers s))
     (foreach (delay_step 5)
        [Subscribe (Fn 1) [Some 2, Some 3], Outside (Upstream (0, Next 10)),
         Outside (Upstream (0, Next 20)), Outside (Upstream (0, Complete)), Unsubscribe 0]
        (delayed_new :: (nat, nat, nat) delayed))
   = Inr ([], [(0, 5, Emit_next 10), (2, 5, Emit_complete)])
   \<and> map_sum id (\<lambda>s. (subscriptions s, timers s))
     (foreach (delay_step 5)
        [Subscribe (Fn 1) [Some 2, Some 3], Outside (Upstream (0, Next 10)),
         Outside (Upstream (0, Next 20)), Outside (Upstream (0, Complete)), Unsubscribe 0,
         Outside Tick, Outside Tick, Outside Tick, Outside Tick]
        (delayed_new :: (nat, nat, nat) delayed))
   = Inr ([], [(0, 5, Emit_next 10), (2, 5, Emit_complete)])
   \<and> map_sum id calls
     (foreach (delay_step 5)
        [Subscribe (Fn 1) [Some 2, Some 3], Outside (Upstream (0, Next 10)),
         Outside (Upstream (0, Next 20)), Outside (Upstream (0, Complete)), Unsubscribe 0,
         Outside Tick, Outside Tick, Outside Tick, Outside Tick, Outside Tick]
        (delayed_new :: (nat, nat, nat) delayed))
   = Inl TypeError
   \<and> map_sum id (\<lambda>s. (subscriptions s, timers s))
     (foreach (Signal_delay_step 5)
        [Subscribe (Fn 1) [Some 2, Some 3], Outside (Upstream (0, Next 10)),
         Outside (Upstream (0, Next 20)), Outside (Upstream (0, Complete)), Unsubscribe 0]
        (delayed_new :: (nat, nat, nat) delayed))
   = Inr ([], [(0, 5, Call_next 10), (1, 5, Call_next 20), (2, 5, Call_complete)])
   \<and> map_sum id calls
     (foreach (Signal_delay_step 5)
        [Subscribe (Fn 1) [Some 2, Some 3], Outside (Upstream (0, Next 10)),
         Outside (Upstream (0, Next 20)), Outside (Upstream (0, Complete)), Unsubscribe 0,
         Subscribe (Fn 7) [Some 8, Some 9],
         Outside Tick, Outside Tick, Outside Tick, Outside Tick, Outside Tick]
        (delayed_new :: (nat, nat, nat) delayed))
   = Inr [(7, Next 10), (7, Next 20), (9, Complete)]"
  by (simp add: engine_defs delay_step_def delay_mount_def delay_observer_def delayed_new_def
        call_closure_def setTimeout_def clearTimeout_def tick_def run_task_def
        Signal_delay_step_def Signal_delay_mount_def Signal_delay_observer_def)

end
